theory Spec2Isabelle
  imports Main "HOL-Library.Word" "HOL-Library.Char_ord" "HOL-Library.List_Lexorder"
begin

section \<open>The batch checker of checker.go, as a shallow embedding\<close>

text \<open>
  The program reads a directory of CSV files, classifies each file as an insert or an
  update file by its name, and validates every data row against two sets of identifiers
  kept for the whole run. The embedding follows \<^verbatim>\<open>checker.go\<close> function by function:
  \<^verbatim>\<open>validateRow\<close>, \<^verbatim>\<open>markError\<close>, \<^verbatim>\<open>processFile\<close>, \<^verbatim>\<open>Run\<close> and \<^verbatim>\<open>NewProcessor\<close>.

  What lies outside the repository is modelled as follows.
  \<^item> Go strings are byte strings: \<^typ>\<open>string\<close>, compared byte by byte (the order of
    \<^verbatim>\<open>Char_ord\<close>, lifted lexicographically to lists).
  \<^item> The \<^verbatim>\<open>FileSystem\<close> interface is a record of two functions. \<^verbatim>\<open>Open\<close> takes the
    directory and the file name: it stands for \<^verbatim>\<open>fs.Open(filepath.Join(dir, name))\<close>.
    What it yields is the sequence of results that \<^verbatim>\<open>csv.Reader.Read\<close> returns on the
    file before \<^verbatim>\<open>io.EOF\<close>: each one a record or a decoding error.
  \<^item> \<^verbatim>\<open>strconv.ParseInt(s, 10, 64)\<close>, \<^verbatim>\<open>strings.HasPrefix\<close>, \<^verbatim>\<open>strings.Join\<close> and
    \<^verbatim>\<open>filepath.Ext\<close> are written out after the standard library.
  \<^item> \<^verbatim>\<open>filepath.Ext\<close> is the one of Unix: the path separator is the slash.
  \<^item> The logger is a write-only side channel; its calls are left out.
  \<^item> A run-time panic (an index out of range) is the result \<open>None\<close>.
  \<^item> \<^verbatim>\<open>IDColIdx\<close>, the row number and the error counts are Go \<^verbatim>\<open>int\<close>s. They are only
    compared, or incremented once per row read, so they are integers without a bound
    here. \<^verbatim>\<open>MinID\<close> and the parsed identifier are 64-bit words, compared as signed.
\<close>

subsection \<open>Errors\<close>

text \<open>
  \<open>Cause\<close> is an error raised by a collaborator; \<open>Errorf m e\<close> is
  \<^verbatim>\<open>fmt.Errorf(m + ": %w", e)\<close>, the error \<open>e\<close> wrapped under the message \<open>m\<close>.
\<close>

datatype error = Cause string | Errorf string error

fun Error_text :: "error \<Rightarrow> string" where
  "Error_text (Cause s) = s"
| "Error_text (Errorf m e) = m @ '': '' @ Error_text e"

subsection \<open>Data model\<close>

type_synonym int64 = "64 word"

record Config =
  Dir :: string
  IDColIdx :: int
  InsertF :: string
  UpdateF :: string
  MinID :: int64

record Stats =
  InsertErrors :: int
  UpdateErrors :: int

record CheckResult =
  IsError :: bool
  Message :: string

record DirEntry =
  Name :: string
  IsDir :: bool

type_synonym csv_stream = "(error + string list) list"

record FileSystem =
  ReadDir :: "string \<Rightarrow> error + DirEntry list"
  Open :: "string \<Rightarrow> string \<Rightarrow> error + csv_stream"

text \<open>
  The processor. \<open>out\<close> is the text written to the output sink so far. \<open>opened\<close> is the
  trace of the calls of \<^verbatim>\<open>fs.Open\<close> made so far (the file names, in call order): the
  effect of the run on the file system.
\<close>

record Processor =
  cfg :: Config
  fs :: FileSystem
  out :: string
  seenIDs :: "string \<rightharpoonup> bool"
  errorIDs :: "string \<rightharpoonup> bool"
  opened :: "string list"

definition NewProcessor :: "Config \<Rightarrow> FileSystem \<Rightarrow> Processor" where
  "NewProcessor c f =
     \<lparr>cfg = c, fs = f, out = [], seenIDs = Map.empty, errorIDs = Map.empty, opened = []\<rparr>"

text \<open>Reading a \<^verbatim>\<open>map[string]bool\<close>: a missing key reads as \<^verbatim>\<open>false\<close>.\<close>

definition lookup :: "(string \<rightharpoonup> bool) \<Rightarrow> string \<Rightarrow> bool" where
  "lookup m k = (case m k of None \<Rightarrow> False | Some b \<Rightarrow> b)"

subsection \<open>The messages, as UTF-8 bytes\<close>

text \<open>"eraa taishousha no 2 kaime ikou": a later row of a subject already in error.\<close>

definition msg_repeat :: string where
  "msg_repeat = [CHR 0xE3, CHR 0x82, CHR 0xA8, CHR 0xE3, CHR 0x83, CHR 0xA9, CHR 0xE3,
     CHR 0x83, CHR 0xBC, CHR 0xE5, CHR 0xAF, CHR 0xBE, CHR 0xE8, CHR 0xB1, CHR 0xA1, CHR 0xE8,
     CHR 0x80, CHR 0x85, CHR 0xE3, CHR 0x81, CHR 0xAE, CHR 0x32, CHR 0xE5, CHR 0x9B, CHR 0x9E,
     CHR 0xE7, CHR 0x9B, CHR 0xAE, CHR 0xE4, CHR 0xBB, CHR 0xA5, CHR 0xE9, CHR 0x99, CHR 0x8D]"

text \<open>"tsuika fairu de 2 kaime": the second occurrence in an insert file.\<close>

definition msg_dup :: string where
  "msg_dup = [CHR 0xE8, CHR 0xBF, CHR 0xBD, CHR 0xE5, CHR 0x8A, CHR 0xA0, CHR 0xE3,
     CHR 0x83, CHR 0x95, CHR 0xE3, CHR 0x82, CHR 0xA1, CHR 0xE3, CHR 0x82, CHR 0xA4, CHR 0xE3,
     CHR 0x83, CHR 0xAB, CHR 0xE3, CHR 0x81, CHR 0xA7, CHR 0x32, CHR 0xE5, CHR 0x9B, CHR 0x9E,
     CHR 0xE7, CHR 0x9B, CHR 0xAE]"

text \<open>"saitennyuu eraa": the identifier is below the minimum.\<close>

definition msg_min :: string where
  "msg_min = [CHR 0xE5, CHR 0x86, CHR 0x8D, CHR 0xE8, CHR 0xBB, CHR 0xA2, CHR 0xE5,
     CHR 0x85, CHR 0xA5, CHR 0xE3, CHR 0x82, CHR 0xA8, CHR 0xE3, CHR 0x83, CHR 0xA9, CHR 0xE3,
     CHR 0x83, CHR 0xBC]"

text \<open>The three pieces of the summary line around its two numbers.\<close>

definition summary_insert :: string where
  "summary_insert = [CHR 0xE8, CHR 0xBF, CHR 0xBD, CHR 0xE5, CHR 0x8A, CHR 0xA0, CHR 0xE3,
     CHR 0x83, CHR 0x95, CHR 0xE3, CHR 0x82, CHR 0xA1, CHR 0xE3, CHR 0x82, CHR 0xA4, CHR 0xE3,
     CHR 0x83, CHR 0xAB, CHR 0x3A, CHR 0x20]"

definition summary_update :: string where
  "summary_update = [CHR 0xE4, CHR 0xBB, CHR 0xB6, CHR 0x20, CHR 0xE6, CHR 0x9B, CHR 0xB4,
     CHR 0xE6, CHR 0x96, CHR 0xB0, CHR 0xE3, CHR 0x83, CHR 0x95, CHR 0xE3, CHR 0x82, CHR 0xA1,
     CHR 0xE3, CHR 0x82, CHR 0xA4, CHR 0xE3, CHR 0x83, CHR 0xAB, CHR 0x3A]"

definition summary_end :: string where
  "summary_end = [CHR 0xE4, CHR 0xBB, CHR 0xB6, CHR 0x0A]"

subsection \<open>Standard library functions\<close>

text \<open>\<^verbatim>\<open>%d\<close>: an integer in decimal.\<close>

fun natToDec :: "nat \<Rightarrow> string" where
  "natToDec n =
     (if n < 10 then [''0123456789'' ! n]
      else natToDec (n div 10) @ [''0123456789'' ! (n mod 10)])"

declare natToDec.simps [simp del]

definition itoa :: "int \<Rightarrow> string" where
  "itoa i = (if i < 0 then CHR ''-'' # natToDec (nat (- i)) else natToDec (nat i))"

text \<open>\<^verbatim>\<open>strings.HasPrefix(s, prefix)\<close>.\<close>

definition HasPrefix :: "string \<Rightarrow> string \<Rightarrow> bool" where
  "HasPrefix s pre = (length pre \<le> length s \<and> take (length pre) s = pre)"

text \<open>\<^verbatim>\<open>strings.Join(elems, sep)\<close>.\<close>

fun Join :: "string list \<Rightarrow> string \<Rightarrow> string" where
  "Join [] sep = []"
| "Join [x] sep = x"
| "Join (x # y # ys) sep = x @ sep @ Join (y # ys) sep"

text \<open>
  \<^verbatim>\<open>filepath.Ext(path)\<close>: the loop runs from the last byte down, stops at a path
  separator, and returns the suffix that starts at the first dot it meets.
  \<open>Ext_loop path (Suc i)\<close> is the loop at index \<open>i\<close>.
\<close>

fun Ext_loop :: "string \<Rightarrow> nat \<Rightarrow> string" where
  "Ext_loop path 0 = []"
| "Ext_loop path (Suc i) =
     (if path ! i = CHR ''/'' then []
      else if path ! i = CHR ''.'' then drop i path
      else Ext_loop path i)"

definition Ext :: "string \<Rightarrow> string" where
  "Ext path = Ext_loop path (length path)"

text \<open>
  \<^verbatim>\<open>strconv.ParseUint(s, 10, 64)\<close>: the accumulator is an unsigned 64-bit value, kept
  here as a natural number with the wrap-around of the addition written out.
\<close>

datatype NumError = ErrSyntax | ErrRange

definition isDigit :: "char \<Rightarrow> bool" where
  "isDigit c = (48 \<le> (of_char c :: nat) \<and> (of_char c :: nat) \<le> 57)"

definition cutoff64 :: nat where
  "cutoff64 = (2 ^ 64 - 1) div 10 + 1"

fun ParseUint_loop :: "string \<Rightarrow> nat \<Rightarrow> NumError + nat" where
  "ParseUint_loop [] n = Inr n"
| "ParseUint_loop (c # cs) n =
     (if \<not> isDigit c then Inl ErrSyntax
      else if cutoff64 \<le> n then Inl ErrRange
      else let n1 = (n * 10 + (of_char c - 48)) mod 2 ^ 64
           in if n1 < n * 10 then Inl ErrRange else ParseUint_loop cs n1)"

definition ParseUint :: "string \<Rightarrow> NumError + nat" where
  "ParseUint s = (if s = [] then Inl ErrSyntax else ParseUint_loop s 0)"

text \<open>
  \<^verbatim>\<open>strconv.ParseInt(s, 10, 64)\<close>: an optional sign, then \<^verbatim>\<open>ParseUint\<close>, then the
  range check against \<open>2 ^ 63\<close> and the conversion to \<^verbatim>\<open>int64\<close>.
\<close>

definition ParseInt :: "string \<Rightarrow> NumError + int64" where
  "ParseInt s =
     (if s = [] then Inl ErrSyntax
      else
        let neg = (hd s = CHR ''-'');
            s1 = (if hd s = CHR ''+'' \<or> hd s = CHR ''-'' then tl s else s)
        in case ParseUint s1 of
             Inl e \<Rightarrow> Inl e
           | Inr un \<Rightarrow>
               if \<not> neg \<and> 2 ^ 63 \<le> un then Inl ErrRange
               else if neg \<and> 2 ^ 63 < un then Inl ErrRange
               else Inr (if neg then - word_of_nat un else word_of_nat un))"

subsection \<open>validateRow and markError\<close>

definition markError :: "Processor \<Rightarrow> string \<Rightarrow> Processor" where
  "markError p ident = p\<lparr>errorIDs := (errorIDs p)(ident \<mapsto> True)\<rparr>"

definition passResult :: CheckResult where
  "passResult = \<lparr>IsError = False, Message = []\<rparr>"

definition validateRow :: "Processor \<Rightarrow> string list \<Rightarrow> bool \<Rightarrow> (CheckResult \<times> Processor) option" where
  "validateRow p recd isInsert =
     (if int (length recd) \<le> IDColIdx (cfg p) then Some (passResult, p)
      else if IDColIdx (cfg p) < 0 then None
      else
        let idStr = recd ! nat (IDColIdx (cfg p)) in
        if lookup (errorIDs p) idStr
        then Some (\<lparr>IsError = True, Message = msg_repeat\<rparr>, p)
        else if isInsert then
          (if lookup (seenIDs p) idStr
           then Some (\<lparr>IsError = True, Message = msg_dup\<rparr>, markError p idStr)
           else
             (case ParseInt idStr of
                Inr idInt \<Rightarrow>
                  if idInt <s MinID (cfg p)
                  then Some (\<lparr>IsError = True, Message = msg_min\<rparr>, markError p idStr)
                  else Some (passResult, p\<lparr>seenIDs := (seenIDs p)(idStr \<mapsto> True)\<rparr>)
              | Inl err \<Rightarrow>
                  Some (passResult, p\<lparr>seenIDs := (seenIDs p)(idStr \<mapsto> True)\<rparr>)))
        else Some (passResult, p))"

subsection \<open>processFile\<close>

text \<open>The diagnostic line of one row in error.\<close>

definition errorLine :: "string \<Rightarrow> int \<Rightarrow> string \<Rightarrow> string list \<Rightarrow> string" where
  "errorLine filename rowNum msg recd =
     filename @ ''('' @ itoa rowNum @ '') - '' @ msg @ '' : '' @ Join recd '','' @ [CHR 0x0A]"

text \<open>
  The loop over the data rows: the results of \<^verbatim>\<open>reader.Read\<close> still to come, the
  row number, the error count and the processor.
\<close>

fun processFile_loop ::
  "string \<Rightarrow> bool \<Rightarrow> csv_stream \<Rightarrow> int \<Rightarrow> int \<Rightarrow> Processor
     \<Rightarrow> ((int \<times> error option) \<times> Processor) option" where
  "processFile_loop filename isInsert [] rowNum errCount p = Some ((errCount, None), p)"
| "processFile_loop filename isInsert (Inl err # rest) rowNum errCount p =
     Some ((errCount, Some (Errorf (''csv read error at line '' @ itoa (rowNum + 1)) err)), p)"
| "processFile_loop filename isInsert (Inr recd # rest) rowNum errCount p =
     (case validateRow p recd isInsert of
        None \<Rightarrow> None
      | Some (res, p') \<Rightarrow>
          if IsError res
          then processFile_loop filename isInsert rest (rowNum + 1) (errCount + 1)
                 (p'\<lparr>out := out p' @ errorLine filename (rowNum + 1) (Message res) recd\<rparr>)
          else processFile_loop filename isInsert rest (rowNum + 1) errCount p')"

definition processFile ::
  "Processor \<Rightarrow> string \<Rightarrow> bool \<Rightarrow> ((int \<times> error option) \<times> Processor) option" where
  "processFile p filename isInsert =
     (let p0 = p\<lparr>opened := opened p @ [filename]\<rparr> in
      case Open (fs p) (Dir (cfg p)) filename of
        Inl err \<Rightarrow> Some ((0, Some err), p0)
      | Inr stream \<Rightarrow>
          (case stream of
             [] \<Rightarrow> Some ((0, None), p0)
           | Inl err # rest \<Rightarrow> Some ((0, Some (Errorf ''failed to read header'' err)), p0)
           | Inr header # rest \<Rightarrow> processFile_loop filename isInsert rest 1 0 p0))"

subsection \<open>Run\<close>

text \<open>
  The loop over the sorted entries. It yields the statistics so far and the error, if
  any, with which \<^verbatim>\<open>Run\<close> returns from inside the loop.
\<close>

fun Run_loop ::
  "DirEntry list \<Rightarrow> Stats \<Rightarrow> Processor \<Rightarrow> ((Stats \<times> error option) \<times> Processor) option" where
  "Run_loop [] stats p = Some ((stats, None), p)"
| "Run_loop (entry # entries) stats p =
     (if IsDir entry then Run_loop entries stats p
      else if Ext (Name entry) \<noteq> ''.csv'' then Run_loop entries stats p
      else if \<not> HasPrefix (Name entry) (InsertF (cfg p)) \<and>
              \<not> HasPrefix (Name entry) (UpdateF (cfg p))
      then Run_loop entries stats p
      else
        (case processFile p (Name entry) (HasPrefix (Name entry) (InsertF (cfg p))) of
           None \<Rightarrow> None
         | Some ((fileErrCount, Some err), p') \<Rightarrow>
             Some ((stats, Some (Errorf (''failed to process file '' @ Name entry) err)), p')
         | Some ((fileErrCount, None), p') \<Rightarrow>
             if HasPrefix (Name entry) (InsertF (cfg p))
             then Run_loop entries
                    (stats\<lparr>InsertErrors := InsertErrors stats + fileErrCount\<rparr>) p'
             else Run_loop entries
                    (stats\<lparr>UpdateErrors := UpdateErrors stats + fileErrCount\<rparr>) p'))"

definition summaryLine :: "Stats \<Rightarrow> string" where
  "summaryLine stats =
     summary_insert @ itoa (InsertErrors stats) @ summary_update @
     itoa (UpdateErrors stats) @ summary_end"

text \<open>
  \<^verbatim>\<open>sort.Slice\<close> orders the entries by name. It is not stable, where the insertion sort
  used here is; the two agree on the sequence of names, and on the entries themselves
  when no two entries share a name, as in a directory.
\<close>

definition Run :: "Processor \<Rightarrow> ((Stats option \<times> error option) \<times> Processor) option" where
  "Run p =
     (case ReadDir (fs p) (Dir (cfg p)) of
        Inl err \<Rightarrow> Some ((None, Some (Errorf ''failed to read dir'' err)), p)
      | Inr entries \<Rightarrow>
          (case Run_loop (sort_key Name entries) \<lparr>InsertErrors = 0, UpdateErrors = 0\<rparr> p of
             None \<Rightarrow> None
           | Some ((stats, Some err), p') \<Rightarrow> Some ((None, Some err), p')
           | Some ((stats, None), p') \<Rightarrow>
               Some ((Some stats, None), p'\<lparr>out := out p' @ summaryLine stats\<rparr>)))"

subsection \<open>Vocabulary for the properties\<close>

text \<open>
  A row bears an identifier when its field at the identifier column exists and is that
  identifier.
\<close>

definition bears :: "Config \<Rightarrow> string list \<Rightarrow> string \<Rightarrow> bool" where
  "bears c recd ident =
     (0 \<le> IDColIdx c \<and> IDColIdx c < int (length recd) \<and> recd ! nat (IDColIdx c) = ident)"

text \<open>
  The calls of \<^verbatim>\<open>validateRow\<close> of a run, one after the other: each call is a row
  and the \<^verbatim>\<open>isInsert\<close> flag of its file. The result lists, for every call, what it
  returned and the processor it left. \<open>stateBefore p rs i\<close> is the processor that call
  \<open>i\<close> starts from, and \<open>stateBefore p rs (length rs)\<close> the one the last call leaves.
\<close>

fun validateRows ::
  "Processor \<Rightarrow> (string list \<times> bool) list \<Rightarrow> (CheckResult \<times> Processor) list option" where
  "validateRows p [] = Some []"
| "validateRows p (call # calls) =
     (case validateRow p (fst call) (snd call) of
        None \<Rightarrow> None
      | Some (res, p') \<Rightarrow>
          (case validateRows p' calls of
             None \<Rightarrow> None
           | Some rs \<Rightarrow> Some ((res, p') # rs)))"

definition stateBefore :: "Processor \<Rightarrow> (CheckResult \<times> Processor) list \<Rightarrow> nat \<Rightarrow> Processor" where
  "stateBefore p rs i = (if i = 0 then p else snd (rs ! (i - 1)))"

text \<open>How many of the calls are insert rows that bear the identifier.\<close>

definition insOcc :: "Config \<Rightarrow> string \<Rightarrow> (string list \<times> bool) list \<Rightarrow> nat" where
  "insOcc c ident calls = length (filter (\<lambda>call. snd call \<and> bears c (fst call) ident) calls)"

text \<open>The entries that the loop of \<^verbatim>\<open>Run\<close> does not skip.\<close>

definition eligible :: "Config \<Rightarrow> DirEntry \<Rightarrow> bool" where
  "eligible c entry =
     (\<not> IsDir entry \<and> Ext (Name entry) = ''.csv'' \<and>
      (HasPrefix (Name entry) (InsertF c) \<or> HasPrefix (Name entry) (UpdateF c)))"

text \<open>
  The error with which \<^verbatim>\<open>processFile\<close> returns on a file, read off the results of
  \<^verbatim>\<open>Open\<close> and \<^verbatim>\<open>reader.Read\<close> alone: \<open>rowsError\<close> for the loop over the data rows,
  \<open>fileError\<close> for the whole function.
\<close>

fun rowsError :: "csv_stream \<Rightarrow> int \<Rightarrow> error option" where
  "rowsError [] rowNum = None"
| "rowsError (Inl err # rest) rowNum =
     Some (Errorf (''csv read error at line '' @ itoa (rowNum + 1)) err)"
| "rowsError (Inr recd # rest) rowNum = rowsError rest (rowNum + 1)"

definition fileError :: "FileSystem \<Rightarrow> string \<Rightarrow> string \<Rightarrow> error option" where
  "fileError f dirname filename =
     (case Open f dirname filename of
        Inl err \<Rightarrow> Some err
      | Inr stream \<Rightarrow>
          (case stream of
             [] \<Rightarrow> None
           | Inl err # rest \<Rightarrow> Some (Errorf ''failed to read header'' err)
           | Inr header # rest \<Rightarrow> rowsError rest 1))"

text \<open>
  The calls of \<^verbatim>\<open>validateRow\<close> that a run makes, read off the file system: \<open>rowsRead\<close>
  are the records that the loop of \<^verbatim>\<open>processFile\<close> reads before the end of the file or
  the first decoding error, \<open>dataRows\<close> those of a file after its header, and
  \<open>runCalls\<close> the rows of the eligible files in the order of the entries, each with
  the \<^verbatim>\<open>isInsert\<close> flag of its file, up to the first file that fails.
\<close>

fun rowsRead :: "csv_stream \<Rightarrow> string list list" where
  "rowsRead [] = []"
| "rowsRead (Inl err # rest) = []"
| "rowsRead (Inr recd # rest) = recd # rowsRead rest"

definition dataRows :: "FileSystem \<Rightarrow> string \<Rightarrow> string \<Rightarrow> string list list" where
  "dataRows f dirname filename =
     (case Open f dirname filename of
        Inl err \<Rightarrow> []
      | Inr stream \<Rightarrow>
          (case stream of
             [] \<Rightarrow> []
           | Inl err # rest \<Rightarrow> []
           | Inr header # rest \<Rightarrow> rowsRead rest))"

fun runCalls :: "Config \<Rightarrow> FileSystem \<Rightarrow> DirEntry list \<Rightarrow> (string list \<times> bool) list" where
  "runCalls c f [] = []"
| "runCalls c f (entry # entries) =
     (if \<not> eligible c entry then runCalls c f entries
      else map (\<lambda>recd. (recd, HasPrefix (Name entry) (InsertF c)))
             (dataRows f (Dir c) (Name entry)) @
           (if fileError f (Dir c) (Name entry) = None then runCalls c f entries else []))"

text \<open>Two processors with the same configuration and the same two sets of identifiers.\<close>

definition sameRunState :: "Processor \<Rightarrow> Processor \<Rightarrow> bool" where
  "sameRunState p q = (cfg p = cfg q \<and> seenIDs p = seenIDs q \<and> errorIDs p = errorIDs q)"

text \<open>The number of calls with the given \<^verbatim>\<open>isInsert\<close> flag that returned an error.\<close>

definition errorCount ::
  "bool \<Rightarrow> (string list \<times> bool) list \<Rightarrow> (CheckResult \<times> Processor) list \<Rightarrow> int" where
  "errorCount b calls rs =
     int (length (filter (\<lambda>x. snd (fst x) = b \<and> IsError (fst (snd x))) (zip calls rs)))"

text \<open>
  The integer that a decimal numeral denotes: an optional sign, then at least one digit.
  It is an integer of mathematics, with no bound; \<open>digitsValue\<close> is the number that a
  string of digits denotes.
\<close>

definition digitStep :: "nat \<Rightarrow> char \<Rightarrow> nat" where
  "digitStep n c = n * 10 + (of_char c - 48)"

definition digitsValue :: "string \<Rightarrow> nat" where
  "digitsValue ds = foldl digitStep 0 ds"

definition decimalValue :: "string \<Rightarrow> int option" where
  "decimalValue s =
     (if s = [] then None
      else
        let ds = (if hd s = CHR ''+'' \<or> hd s = CHR ''-'' then tl s else s)
        in if ds \<noteq> [] \<and> list_all isDigit ds
           then Some (if hd s = CHR ''-'' then - int (digitsValue ds) else int (digitsValue ds))
           else None)"

subsection \<open>The fixtures of checker_test.go\<close>

text \<open>
  The configuration the tests use, with the minimum left open, and the in-memory file
  system of the tests: a file name maps to its content, every entry is a plain file, and a
  name that is not there fails to open. The content of a file is given as the results of
  \<^verbatim>\<open>reader.Read\<close> on it, the header first; the listing is in the order of the list.
\<close>

definition testCfg :: "int64 \<Rightarrow> Config" where
  "testCfg m = \<lparr>Dir = ''.'', IDColIdx = 0, InsertF = ''INS'', UpdateF = ''UPD'', MinID = m\<rparr>"

definition mockFS :: "(string \<times> csv_stream) list \<Rightarrow> FileSystem" where
  "mockFS files =
     \<lparr>ReadDir = (\<lambda>dirname. Inr (map (\<lambda>f. \<lparr>Name = fst f, IsDir = False\<rparr>) files)),
      Open = (\<lambda>dirname name.
         case map_of files name of
           None \<Rightarrow> Inl (Cause ''file does not exist'')
         | Some content \<Rightarrow> Inr content)\<rparr>"


section \<open>Properties\<close>

subsection \<open>Evaluation and basic facts of validateRow\<close>

lemmas eval_defs =
  validateRow_def lookup_def markError_def passResult_def NewProcessor_def testCfg_def
  mockFS_def ParseInt_def ParseUint_def isDigit_def cutoff64_def Let_def bears_def

lemmas run_defs =
  Run_def processFile_def Ext_def HasPrefix_def summaryLine_def errorLine_def itoa_def
  natToDec.simps

text \<open>\<^verbatim>\<open>ParseInt\<close> at the ends of the 64-bit range, and on strings that are no numbers.\<close>

lemma ParseInt_examples:
  "ParseInt ''9223372036854775807'' = Inr 9223372036854775807"
  "ParseInt ''9223372036854775808'' = Inl ErrRange"
  "ParseInt ''-9223372036854775808'' = Inr (- 9223372036854775808)"
  "ParseInt ''-9223372036854775809'' = Inl ErrRange"
  "ParseInt ''18446744073709551616'' = Inl ErrRange"
  "ParseInt ''+12'' = Inr 12"
  "ParseInt ''-12'' = Inr (- 12)"
  "ParseInt [] = Inl ErrSyntax"
  "ParseInt ''-'' = Inl ErrSyntax"
  "ParseInt '' 12'' = Inl ErrSyntax"
  "ParseInt ''1_000'' = Inl ErrSyntax"
  "ParseInt ''ABC'' = Inl ErrSyntax"
  by (simp_all add: ParseInt_def ParseUint_def isDigit_def cutoff64_def)

lemma msgs_distinct:
  "msg_repeat \<noteq> msg_dup" "msg_repeat \<noteq> msg_min" "msg_dup \<noteq> msg_min"
  by (simp_all add: msg_repeat_def msg_dup_def msg_min_def)

text \<open>The rule chain on a row that bears an identifier.\<close>

lemma validateRow_bears:
  "bears (cfg p) recd ident \<Longrightarrow>
   validateRow p recd isInsert =
     (if lookup (errorIDs p) ident
      then Some (\<lparr>IsError = True, Message = msg_repeat\<rparr>, p)
      else if isInsert then
        (if lookup (seenIDs p) ident
         then Some (\<lparr>IsError = True, Message = msg_dup\<rparr>, markError p ident)
         else
           (case ParseInt ident of
              Inr idInt \<Rightarrow>
                if idInt <s MinID (cfg p)
                then Some (\<lparr>IsError = True, Message = msg_min\<rparr>, markError p ident)
                else Some (passResult, p\<lparr>seenIDs := (seenIDs p)(ident \<mapsto> True)\<rparr>)
            | Inl err \<Rightarrow>
                Some (passResult, p\<lparr>seenIDs := (seenIDs p)(ident \<mapsto> True)\<rparr>)))
      else Some (passResult, p))"
  by (auto simp add: validateRow_def bears_def Let_def)

lemma validateRow_cases:
  "validateRow p recd isInsert = Some (res, p') \<Longrightarrow>
     int (length recd) \<le> IDColIdx (cfg p) \<and> res = passResult \<and> p' = p
   \<or> bears (cfg p) recd (recd ! nat (IDColIdx (cfg p)))"
  by (auto simp add: validateRow_def bears_def split: if_splits)

text \<open>The only panic of validateRow is the negative column index.\<close>

lemma validateRow_total:
  "0 \<le> IDColIdx (cfg p) \<Longrightarrow> \<exists>res p'. validateRow p recd isInsert = Some (res, p')"
  by (auto simp add: validateRow_def Let_def split: sum.splits)

lemma validateRow_None:
  "validateRow p recd isInsert = None \<longleftrightarrow> IDColIdx (cfg p) < 0"
  by (auto simp add: validateRow_def Let_def split: sum.splits)

lemma validateRow_frame:
  "validateRow p recd isInsert = Some (res, p') \<Longrightarrow>
   cfg p' = cfg p \<and> fs p' = fs p \<and> out p' = out p \<and> opened p' = opened p"
  by (auto simp add: validateRow_def Let_def markError_def split: if_splits sum.splits)

lemma validateRow_mono:
  "validateRow p recd isInsert = Some (res, p') \<Longrightarrow>
   (lookup (errorIDs p) k \<longrightarrow> lookup (errorIDs p') k) \<and>
   (lookup (seenIDs p) k \<longrightarrow> lookup (seenIDs p') k)"
  by (auto simp add: validateRow_def Let_def markError_def lookup_def split: if_splits sum.splits)

lemma validateRow_other:
  "validateRow p recd isInsert = Some (res, p') \<Longrightarrow> \<not> (isInsert \<and> bears (cfg p) recd k) \<Longrightarrow>
   lookup (errorIDs p') k = lookup (errorIDs p) k \<and>
   lookup (seenIDs p') k = lookup (seenIDs p) k"
  by (auto simp add: validateRow_def Let_def markError_def lookup_def bears_def
      split: if_splits sum.splits)

text \<open>
  In a run, an identifier in \<open>seenIDs\<close> that parses is not below the minimum: the
  minimum rule keeps such identifiers out.
\<close>

lemma validateRow_seen_parse:
  assumes "validateRow p recd ins = Some (res, q)"
    and "\<forall>k v. lookup (seenIDs p) k \<and> ParseInt k = Inr v \<longrightarrow> \<not> v <s MinID (cfg p)"
  shows "\<forall>k v. lookup (seenIDs q) k \<and> ParseInt k = Inr v \<longrightarrow> \<not> v <s MinID (cfg p)"
  using assms
  by (auto simp add: validateRow_def Let_def markError_def lookup_def
      split: if_splits sum.splits option.splits)

lemma validateRow_same:
  "sameRunState p2 p \<Longrightarrow> validateRow p recd ins = Some (res, q) \<Longrightarrow>
   \<exists>q2. validateRow p2 recd ins = Some (res, q2) \<and> sameRunState q2 q"
  by (auto simp add: validateRow_def sameRunState_def Let_def markError_def
      split: if_splits sum.splits)

lemma lookup_markError [simp]:
  "lookup (errorIDs (markError p k)) k" "seenIDs (markError p k) = seenIDs p"
  "cfg (markError p k) = cfg p"
  by (simp_all add: lookup_def markError_def)

lemma lookup_upd [simp]: "lookup (m(k \<mapsto> True)) k"
  by (simp add: lookup_def)

lemma IsError_passResult [simp]: "\<not> IsError passResult"
  by (simp add: passResult_def)

subsection \<open>ParseInt against the integer a numeral denotes\<close>

text \<open>
  \<^verbatim>\<open>ParseInt\<close> succeeds exactly on the numerals whose integer is in the 64-bit signed
  range, and then returns the word of that integer.
\<close>

lemma foldl_digits_ge:
  "(m::nat) \<le> foldl digitStep m cs"
proof (induction cs arbitrary: m)
  case Nil
  then show ?case by simp
next
  case (Cons c cs)
  have "m \<le> digitStep m c" by (simp add: digitStep_def)
  also have "\<dots> \<le> foldl digitStep (digitStep m c) cs"
    by (rule Cons.IH)
  finally show ?case by simp
qed

lemma ParseUint_loop_digits:
  "list_all isDigit cs \<Longrightarrow> n < 2 ^ 64 \<Longrightarrow>
   ParseUint_loop cs n =
     (if foldl digitStep n cs < 2 ^ 64 then Inr (foldl digitStep n cs) else Inl ErrRange)"
proof (induction cs arbitrary: n)
  case Nil
  then show ?case by simp
next
  case (Cons c cs)
  let ?d = "of_char c - 48 :: nat"
  from Cons.prems(1) have dig: "isDigit c" and rest: "list_all isDigit cs" by simp_all
  from dig have d: "?d \<le> 9" unfolding isDigit_def by linarith
  have step: "digitStep n c = n * 10 + ?d" by (simp add: digitStep_def)
  show ?case
  proof (cases "cutoff64 \<le> n")
    case True
    then have "(2::nat) ^ 64 \<le> n * 10 + ?d" by (simp add: cutoff64_def)
    also have "\<dots> \<le> foldl digitStep (n * 10 + ?d) cs" by (rule foldl_digits_ge)
    finally have "\<not> foldl digitStep (n * 10 + ?d) cs < 2 ^ 64" by simp
    with True dig step show ?thesis by simp
  next
    case False
    show ?thesis
    proof (cases "n * 10 + ?d < 2 ^ 64")
      case small: True
      then have m: "(n * 10 + ?d) mod 2 ^ 64 = n * 10 + ?d" by simp
      from Cons.IH [OF rest small] False dig m step show ?thesis by (simp add: Let_def)
    next
      case big: False
      from False d have "n * 10 + ?d < 2 * 2 ^ 64" by (simp add: cutoff64_def)
      with big have m: "(n * 10 + ?d) mod 2 ^ 64 = n * 10 + ?d - 2 ^ 64"
        by (simp add: mod_if not_less)
      from big d have lt: "n * 10 + ?d - 2 ^ 64 < n * 10" by simp
      from big have "(2::nat) ^ 64 \<le> n * 10 + ?d" by simp
      also have "\<dots> \<le> foldl digitStep (n * 10 + ?d) cs" by (rule foldl_digits_ge)
      finally have "\<not> foldl digitStep (n * 10 + ?d) cs < 2 ^ 64" by simp
      with lt False dig m step show ?thesis by (simp add: Let_def)
    qed
  qed
qed

lemma ParseUint_loop_nondigit:
  "\<not> list_all isDigit cs \<Longrightarrow> \<exists>e. ParseUint_loop cs n = Inl e"
  by (induction cs arbitrary: n) (auto simp add: Let_def)

lemma ParseUint_exact:
  "ParseUint ds = Inr un \<longleftrightarrow>
     ds \<noteq> [] \<and> list_all isDigit ds \<and> digitsValue ds = un \<and> un < 2 ^ 64"
proof (cases "ds \<noteq> [] \<and> list_all isDigit ds")
  case True
  then show ?thesis
    using ParseUint_loop_digits [of ds 0]
    by (auto simp add: ParseUint_def digitsValue_def)
next
  case False
  then show ?thesis
    using ParseUint_loop_nondigit [of ds 0]
    by (auto simp add: ParseUint_def)
qed

lemma sint_word_of_int_range:
  "- (2 ^ 63) \<le> n \<Longrightarrow> n < 2 ^ 63 \<Longrightarrow> sint (word_of_int n :: int64) = n"
  by (simp add: sint_sbintrunc' signed_take_bit_int_eq_self)

lemma ParseInt_exact:
  "ParseInt s = Inr v \<longleftrightarrow>
     (\<exists>n. decimalValue s = Some n \<and> - (2 ^ 63) \<le> n \<and> n < 2 ^ 63 \<and> v = word_of_int n)"
proof (cases "s = []")
  case True
  then show ?thesis by (simp add: ParseInt_def decimalValue_def)
next
  case False
  let ?neg = "hd s = CHR ''-''"
  let ?ds = "if hd s = CHR ''+'' \<or> hd s = CHR ''-'' then tl s else s"
  show ?thesis
  proof (cases "ParseUint ?ds")
    case (Inl e)
    then have "\<not> (?ds \<noteq> [] \<and> list_all isDigit ?ds \<and> digitsValue ?ds < 2 ^ 64)"
      using ParseUint_exact [of ?ds "digitsValue ?ds"] by auto
    moreover have "ParseInt s \<noteq> Inr v" using False Inl by (simp add: ParseInt_def Let_def)
    ultimately show ?thesis using False
      by (auto simp add: decimalValue_def Let_def split: if_splits)
  next
    case (Inr un)
    then have ds: "?ds \<noteq> []" "list_all isDigit ?ds" and un: "digitsValue ?ds = un"
      using ParseUint_exact [of ?ds un] by simp_all
    from ds un False
    have dv: "decimalValue s = Some (if ?neg then - int un else int un)"
      by (auto simp add: decimalValue_def Let_def split: if_splits)
    have pi: "ParseInt s =
        (if \<not> ?neg \<and> 2 ^ 63 \<le> un then Inl ErrRange
         else if ?neg \<and> 2 ^ 63 < un then Inl ErrRange
         else Inr (if ?neg then - word_of_nat un else word_of_nat un))"
      using False Inr by (simp add: ParseInt_def Let_def)
    show ?thesis
    proof (cases ?neg)
      case True
      have w: "(- word_of_nat un :: int64) = word_of_int (- int un)" by simp
      from True dv pi w show ?thesis by (auto simp add: not_less)
    next
      case pos: False
      have w: "(word_of_nat un :: int64) = word_of_int (int un)" by simp
      from pos dv pi w show ?thesis by (auto simp add: not_le)
    qed
  qed
qed

subsection \<open>Sequences of calls\<close>

lemma stateBefore_0 [simp]: "stateBefore p rs 0 = p"
  by (simp add: stateBefore_def)

lemma stateBefore_Suc [simp]: "stateBefore p (r # rs) (Suc i) = stateBefore (snd r) rs i"
  by (cases i) (simp_all add: stateBefore_def)

lemma stateBefore_after: "stateBefore p rs (Suc i) = snd (rs ! i)"
  by (simp add: stateBefore_def)

lemma stateBefore_length_Cons:
  "stateBefore p (r # rs) (length (r # rs)) = stateBefore (snd r) rs (length rs)"
  by simp

lemma validateRows_Cons:
  "validateRows p (call # calls) = Some rs \<longleftrightarrow>
   (\<exists>res p' rs'. validateRow p (fst call) (snd call) = Some (res, p') \<and>
      validateRows p' calls = Some rs' \<and> rs = (res, p') # rs')"
  by (auto split: option.splits)

lemma validateRows_length:
  "validateRows p calls = Some rs \<Longrightarrow> length rs = length calls"
  by (induction calls arbitrary: p rs) (auto split: option.splits)

lemma validateRows_total:
  "0 \<le> IDColIdx (cfg p) \<Longrightarrow> \<exists>rs. validateRows p calls = Some rs"
proof (induction calls arbitrary: p)
  case Nil
  then show ?case by simp
next
  case (Cons call calls)
  from validateRow_total [OF Cons.prems] obtain res p'
    where step: "validateRow p (fst call) (snd call) = Some (res, p')" by blast
  then have "cfg p' = cfg p" by (simp add: validateRow_frame)
  with Cons.prems have "0 \<le> IDColIdx (cfg p')" by simp
  from Cons.IH [OF this] obtain rs where "validateRows p' calls = Some rs" by blast
  with step show ?case by simp
qed

lemma validateRows_step:
  "validateRows p calls = Some rs \<Longrightarrow> i < length calls \<Longrightarrow>
   validateRow (stateBefore p rs i) (fst (calls ! i)) (snd (calls ! i)) = Some (rs ! i) \<and>
   cfg (stateBefore p rs i) = cfg p"
proof (induction calls arbitrary: p rs i)
  case Nil
  then show ?case by simp
next
  case (Cons call calls)
  from Cons.prems(1) obtain res p' rs'
    where step: "validateRow p (fst call) (snd call) = Some (res, p')"
      and rest: "validateRows p' calls = Some rs'"
      and rs: "rs = (res, p') # rs'"
    by (auto split: option.splits)
  show ?case
  proof (cases i)
    case 0
    with step rs show ?thesis by simp
  next
    case (Suc j)
    with Cons.prems(2) have "j < length calls" by simp
    from Cons.IH [OF rest this] validateRow_frame [OF step] Suc rs
    show ?thesis by simp
  qed
qed

lemma validateRows_cfg:
  "validateRows p calls = Some rs \<Longrightarrow> i \<le> length calls \<Longrightarrow> cfg (stateBefore p rs i) = cfg p"
proof (induction calls arbitrary: p rs i)
  case Nil
  then show ?case by simp
next
  case (Cons call calls)
  from Cons.prems(1) obtain res p' rs'
    where step: "validateRow p (fst call) (snd call) = Some (res, p')"
      and rest: "validateRows p' calls = Some rs'"
      and rs: "rs = (res, p') # rs'"
    by (auto split: option.splits)
  show ?case
  proof (cases i)
    case 0
    then show ?thesis by simp
  next
    case (Suc j)
    with Cons.prems(2) have "j \<le> length calls" by simp
    from Cons.IH [OF rest this] validateRow_frame [OF step] Suc rs show ?thesis by simp
  qed
qed

lemma validateRows_errored_mono:
  "validateRows p calls = Some rs \<Longrightarrow> lookup (errorIDs p) k \<Longrightarrow> i \<le> length calls \<Longrightarrow>
   lookup (errorIDs (stateBefore p rs i)) k"
proof (induction calls arbitrary: p rs i)
  case Nil
  then show ?case by simp
next
  case (Cons call calls)
  from Cons.prems(1) obtain res p' rs'
    where step: "validateRow p (fst call) (snd call) = Some (res, p')"
      and rest: "validateRows p' calls = Some rs'"
      and rs: "rs = (res, p') # rs'"
    by (auto split: option.splits)
  show ?case
  proof (cases i)
    case 0
    with Cons.prems(2) show ?thesis by simp
  next
    case (Suc j)
    with Cons.prems(3) have j: "j \<le> length calls" by simp
    from validateRow_mono [OF step] Cons.prems(2) have "lookup (errorIDs p') k" by blast
    from Cons.IH [OF rest this j] Suc rs show ?thesis by simp
  qed
qed

lemma validateRows_seen_mono:
  "validateRows p calls = Some rs \<Longrightarrow> lookup (seenIDs p) k \<Longrightarrow> i \<le> length calls \<Longrightarrow>
   lookup (seenIDs (stateBefore p rs i)) k"
proof (induction calls arbitrary: p rs i)
  case Nil
  then show ?case by simp
next
  case (Cons call calls)
  from Cons.prems(1) obtain res p' rs'
    where step: "validateRow p (fst call) (snd call) = Some (res, p')"
      and rest: "validateRows p' calls = Some rs'"
      and rs: "rs = (res, p') # rs'"
    by (auto split: option.splits)
  show ?case
  proof (cases i)
    case 0
    with Cons.prems(2) show ?thesis by simp
  next
    case (Suc j)
    with Cons.prems(3) have j: "j \<le> length calls" by simp
    from validateRow_mono [OF step] Cons.prems(2) have "lookup (seenIDs p') k" by blast
    from Cons.IH [OF rest this j] Suc rs show ?thesis by simp
  qed
qed

text \<open>Calls that are not insert rows of the identifier leave its two flags as they are.\<close>

lemma validateRows_other:
  "validateRows p calls = Some rs \<Longrightarrow> i \<le> length calls \<Longrightarrow>
   \<forall>j<i. \<not> (snd (calls ! j) \<and> bears (cfg p) (fst (calls ! j)) k) \<Longrightarrow>
   lookup (errorIDs (stateBefore p rs i)) k = lookup (errorIDs p) k \<and>
   lookup (seenIDs (stateBefore p rs i)) k = lookup (seenIDs p) k"
proof (induction calls arbitrary: p rs i)
  case Nil
  then show ?case by simp
next
  case (Cons call calls)
  from Cons.prems(1) obtain res p' rs'
    where step: "validateRow p (fst call) (snd call) = Some (res, p')"
      and rest: "validateRows p' calls = Some rs'"
      and rs: "rs = (res, p') # rs'"
    by (auto split: option.splits)
  show ?case
  proof (cases i)
    case 0
    then show ?thesis by simp
  next
    case (Suc j)
    with Cons.prems(2) have j: "j \<le> length calls" by simp
    have cfg: "cfg p' = cfg p" using validateRow_frame [OF step] by simp
    from Cons.prems(3) Suc have "\<not> (snd call \<and> bears (cfg p) (fst call) k)" by auto
    from validateRow_other [OF step this]
    have first: "lookup (errorIDs p') k = lookup (errorIDs p) k"
                "lookup (seenIDs p') k = lookup (seenIDs p) k" by simp_all
    from Cons.prems(3) Suc
    have "\<forall>m<j. \<not> (snd (calls ! m) \<and> bears (cfg p') (fst (calls ! m)) k)"
      by (auto simp add: cfg)
    from Cons.IH [OF rest j this] first Suc rs show ?thesis by simp
  qed
qed

lemma validateRows_append:
  "validateRows p (xs @ ys) = Some rs \<Longrightarrow>
   \<exists>rs1 rs2. validateRows p xs = Some rs1 \<and>
     validateRows (stateBefore p rs1 (length rs1)) ys = Some rs2 \<and> rs = rs1 @ rs2 \<and>
     stateBefore p rs (length rs) = stateBefore (stateBefore p rs1 (length rs1)) rs2 (length rs2)"
proof (induction xs arbitrary: p rs)
  case Nil
  then show ?case by simp
next
  case (Cons call xs)
  from Cons.prems obtain res q rs'
    where step: "validateRow p (fst call) (snd call) = Some (res, q)"
      and rest: "validateRows q (xs @ ys) = Some rs'"
      and rs: "rs = (res, q) # rs'"
    by (auto split: option.splits)
  from Cons.IH [OF rest] obtain rs1 rs2
    where a: "validateRows q xs = Some rs1"
      and b: "validateRows (stateBefore q rs1 (length rs1)) ys = Some rs2"
      and c: "rs' = rs1 @ rs2"
      and d: "stateBefore q rs' (length rs') =
              stateBefore (stateBefore q rs1 (length rs1)) rs2 (length rs2)"
    by blast
  from step a have "validateRows p (call # xs) = Some ((res, q) # rs1)" by simp
  moreover from b
  have "validateRows (stateBefore p ((res, q) # rs1) (length ((res, q) # rs1))) ys = Some rs2"
    by simp
  moreover from rs c have "rs = ((res, q) # rs1) @ rs2" by simp
  moreover from d rs
  have "stateBefore p rs (length rs) =
        stateBefore (stateBefore p ((res, q) # rs1) (length ((res, q) # rs1))) rs2 (length rs2)"
    by simp
  ultimately show ?case by blast
qed

lemma insOcc_Nil [simp]: "insOcc c ident [] = 0"
  by (simp add: insOcc_def)

lemma insOcc_Cons [simp]:
  "insOcc c ident (call # calls) =
     (if snd call \<and> bears c (fst call) ident then Suc (insOcc c ident calls)
      else insOcc c ident calls)"
  by (simp add: insOcc_def)

text \<open>
  For an identifier that parses and is not below the minimum, what a row that bears it
  gets depends on the two flags of the identifier at the start and on the number of
  insert rows that bore it since.
\<close>

lemma classify_from_state:
  assumes "ParseInt ident = Inr v" and "\<not> v <s MinID (cfg p)"
    and "validateRows p calls = Some rs" and "i < length calls"
    and "bears (cfg p) (fst (calls ! i)) ident"
  shows "IsError (fst (rs ! i)) \<longleftrightarrow>
           lookup (errorIDs p) ident \<or>
           (if snd (calls ! i)
            then lookup (seenIDs p) ident \<or> 1 \<le> insOcc (cfg p) ident (take i calls)
            else lookup (seenIDs p) ident \<and> 1 \<le> insOcc (cfg p) ident (take i calls) \<or>
                 2 \<le> insOcc (cfg p) ident (take i calls))"
  using assms
proof (induction calls arbitrary: p rs i)
  case Nil
  then show ?case by simp
next
  case (Cons call calls)
  from Cons.prems(3) obtain res p' rs'
    where step: "validateRow p (fst call) (snd call) = Some (res, p')"
      and rest: "validateRows p' calls = Some rs'"
      and rs: "rs = (res, p') # rs'"
    by (auto split: option.splits)
  have c: "cfg p' = cfg p" using validateRow_frame [OF step] by simp
  show ?case
  proof (cases i)
    case 0
    with Cons.prems(5) have b: "bears (cfg p) (fst call) ident" by simp
    from step Cons.prems(1,2) have "IsError res \<longleftrightarrow>
        lookup (errorIDs p) ident \<or> (snd call \<and> lookup (seenIDs p) ident)"
      by (auto simp add: validateRow_bears [OF b] split: if_splits)
    with 0 rs show ?thesis by simp
  next
    case (Suc j)
    with Cons.prems(4) have j: "j < length calls" by simp
    from Cons.prems(5) Suc have bj: "bears (cfg p') (fst (calls ! j)) ident" by (simp add: c)
    from Cons.prems(2) have m: "\<not> v <s MinID (cfg p')" by (simp add: c)
    note IH = Cons.IH [OF Cons.prems(1) m rest j bj]
    show ?thesis
    proof (cases "snd call \<and> bears (cfg p) (fst call) ident")
      case True
      then have b: "bears (cfg p) (fst call) ident" and ins: "snd call" by simp_all
      from step ins Cons.prems(1,2)
      have "(lookup (errorIDs p) ident \<and> p' = p) \<or>
            (\<not> lookup (errorIDs p) ident \<and> lookup (seenIDs p) ident \<and> p' = markError p ident) \<or>
            (\<not> lookup (errorIDs p) ident \<and> \<not> lookup (seenIDs p) ident \<and>
               p' = p\<lparr>seenIDs := (seenIDs p)(ident \<mapsto> True)\<rparr>)"
        by (auto simp add: validateRow_bears [OF b] split: if_splits)
      then show ?thesis
        using IH True Suc rs c by (auto simp add: take_Suc_Cons)
    next
      case False
      from validateRow_other [OF step False] IH False Suc rs c
      show ?thesis by (auto simp add: take_Suc_Cons)
    qed
  qed
qed

lemma validateRows_seen_parse:
  "validateRows p calls = Some rs \<Longrightarrow> i \<le> length calls \<Longrightarrow>
   \<forall>k v. lookup (seenIDs p) k \<and> ParseInt k = Inr v \<longrightarrow> \<not> v <s MinID (cfg p) \<Longrightarrow>
   \<forall>k v. lookup (seenIDs (stateBefore p rs i)) k \<and> ParseInt k = Inr v \<longrightarrow> \<not> v <s MinID (cfg p)"
proof (induction calls arbitrary: p rs i)
  case Nil
  then show ?case by simp
next
  case (Cons call calls)
  from Cons.prems(1) obtain res q rs'
    where step: "validateRow p (fst call) (snd call) = Some (res, q)"
      and rest: "validateRows q calls = Some rs'"
      and rs: "rs = (res, q) # rs'"
    by (auto split: option.splits)
  show ?case
  proof (cases i)
    case 0
    with Cons.prems(3) show ?thesis by simp
  next
    case (Suc j)
    with Cons.prems(2) have j: "j \<le> length calls" by simp
    have c: "cfg q = cfg p" using validateRow_frame [OF step] by simp
    from validateRow_seen_parse [OF step Cons.prems(3)]
    have "\<forall>k v. lookup (seenIDs q) k \<and> ParseInt k = Inr v \<longrightarrow> \<not> v <s MinID (cfg q)"
      by (simp add: c)
    from Cons.IH [OF rest j this] Suc rs c show ?thesis by simp
  qed
qed

lemma seen_not_below_minimum:
  assumes "validateRows (NewProcessor c f) calls = Some rs" and "i \<le> length calls"
    and "lookup (seenIDs (stateBefore (NewProcessor c f) rs i)) k" and "ParseInt k = Inr v"
  shows "\<not> v <s MinID c"
proof -
  have "\<forall>k v. lookup (seenIDs (NewProcessor c f)) k \<and> ParseInt k = Inr v \<longrightarrow>
          \<not> v <s MinID (cfg (NewProcessor c f))"
    by (simp add: NewProcessor_def lookup_def)
  from validateRows_seen_parse [OF assms(1,2) this] assms(3,4)
  show ?thesis by (simp add: NewProcessor_def)
qed

subsection \<open>Files and the loop of Run\<close>

lemma processFile_loop_frame:
  "processFile_loop fn ins stream rn ec p = Some (r, p') \<Longrightarrow>
   cfg p' = cfg p \<and> fs p' = fs p \<and> opened p' = opened p"
proof (induction fn ins stream rn ec p rule: processFile_loop.induct)
  case (1 filename isInsert rowNum errCount p)
  then show ?case by simp
next
  case (2 filename isInsert err rest rowNum errCount p)
  then show ?case by simp
next
  case (3 filename isInsert recd rest rowNum errCount p)
  from "3.prems" obtain res q where step: "validateRow p recd isInsert = Some (res, q)"
    by (auto split: option.splits)
  note fr = validateRow_frame [OF step]
  show ?case
  proof (cases "IsError res")
    case True
    with "3.prems" step "3.IH"(1) [of "(res, q)" res q] fr show ?thesis by simp
  next
    case False
    with "3.prems" step "3.IH"(2) [of "(res, q)" res q] fr show ?thesis by simp
  qed
qed

lemma processFile_loop_error:
  "0 \<le> IDColIdx (cfg p) \<Longrightarrow>
   \<exists>n p'. processFile_loop fn ins stream rn ec p = Some ((n, rowsError stream rn), p')"
proof (induction fn ins stream rn ec p rule: processFile_loop.induct)
  case (1 filename isInsert rowNum errCount p)
  then show ?case by simp
next
  case (2 filename isInsert err rest rowNum errCount p)
  then show ?case by simp
next
  case (3 filename isInsert recd rest rowNum errCount p)
  from validateRow_total [OF "3.prems"] obtain res q
    where step: "validateRow p recd isInsert = Some (res, q)" by blast
  from validateRow_frame [OF step] "3.prems" have idx: "0 \<le> IDColIdx (cfg q)" by simp
  show ?case
  proof (cases "IsError res")
    case True
    with step "3.IH"(1) [of "(res, q)" res q] idx show ?thesis by simp
  next
    case False
    with step "3.IH"(2) [of "(res, q)" res q] idx show ?thesis by simp
  qed
qed

lemma processFile_frame:
  "processFile p fn ins = Some (r, p') \<Longrightarrow>
   cfg p' = cfg p \<and> fs p' = fs p \<and> opened p' = opened p @ [fn]"
  by (auto simp add: processFile_def Let_def split: sum.splits list.splits
      dest!: processFile_loop_frame)

lemma processFile_error:
  assumes "0 \<le> IDColIdx (cfg p)"
  shows "\<exists>n p'. processFile p fn ins = Some ((n, fileError (fs p) (Dir (cfg p)) fn), p')"
proof -
  have "0 \<le> IDColIdx (cfg (p\<lparr>opened := opened p @ [fn]\<rparr>))" using assms by simp
  from processFile_loop_error [OF this]
  show ?thesis
    by (auto simp add: processFile_def fileError_def Let_def split: sum.splits list.splits)
qed

lemma Run_loop_skip:
  "\<not> eligible (cfg p) e \<Longrightarrow> Run_loop (e # es) stats p = Run_loop es stats p"
  by (auto simp add: eligible_def)

lemma Run_loop_step:
  "eligible (cfg p) e \<Longrightarrow>
   Run_loop (e # es) stats p =
     (case processFile p (Name e) (HasPrefix (Name e) (InsertF (cfg p))) of
        None \<Rightarrow> None
      | Some ((fileErrCount, Some err), p') \<Rightarrow>
          Some ((stats, Some (Errorf (''failed to process file '' @ Name e) err)), p')
      | Some ((fileErrCount, None), p') \<Rightarrow>
          if HasPrefix (Name e) (InsertF (cfg p))
          then Run_loop es (stats\<lparr>InsertErrors := InsertErrors stats + fileErrCount\<rparr>) p'
          else Run_loop es (stats\<lparr>UpdateErrors := UpdateErrors stats + fileErrCount\<rparr>) p')"
  by (auto simp add: eligible_def)

lemma Run_loop_opened:
  "Run_loop es stats p = Some ((st, err), p') \<Longrightarrow>
   cfg p' = cfg p \<and> fs p' = fs p \<and>
   (\<exists>n. opened p' = opened p @ take n (map Name (filter (eligible (cfg p)) es))) \<and>
   (err = None \<longrightarrow> opened p' = opened p @ map Name (filter (eligible (cfg p)) es))"
proof (induction es arbitrary: stats p)
  case Nil
  then show ?case by simp
next
  case (Cons e es)
  show ?case
  proof (cases "eligible (cfg p) e")
    case False
    with Cons.prems have "Run_loop es stats p = Some ((st, err), p')"
      by (simp add: Run_loop_skip del: Run_loop.simps)
    from Cons.IH [OF this] False show ?thesis by simp
  next
    case True
    let ?ins = "HasPrefix (Name e) (InsertF (cfg p))"
    from Cons.prems True obtain n ferr q
      where pf: "processFile p (Name e) ?ins = Some ((n, ferr), q)"
      by (auto simp add: Run_loop_step simp del: Run_loop.simps split: option.splits prod.splits)
    note fr = processFile_frame [OF pf]
    show ?thesis
    proof (cases ferr)
      case (Some x)
      with Cons.prems True pf have "p' = q" "err \<noteq> None"
        by (auto simp add: Run_loop_step simp del: Run_loop.simps)
      with fr True have "opened p' = opened p @ take 1 (map Name (filter (eligible (cfg p)) (e # es)))"
        by simp
      with \<open>p' = q\<close> \<open>err \<noteq> None\<close> fr show ?thesis by blast
    next
      case None
      with Cons.prems True pf obtain stats'
        where rest: "Run_loop es stats' q = Some ((st, err), p')"
        by (auto simp add: Run_loop_step simp del: Run_loop.simps split: if_splits)
      from Cons.IH [OF rest]
      have c: "cfg p' = cfg q" "fs p' = fs q"
        and ex: "\<exists>k. opened p' = opened q @ take k (map Name (filter (eligible (cfg q)) es))"
        and all: "err = None \<longrightarrow> opened p' = opened q @ map Name (filter (eligible (cfg q)) es)"
        by blast+
      from ex obtain k
        where k: "opened p' = opened q @ take k (map Name (filter (eligible (cfg q)) es))"
        by blast
      from k fr True
      have "opened p' = opened p @ take (Suc k) (map Name (filter (eligible (cfg p)) (e # es)))"
        by simp
      then have "\<exists>n. opened p' = opened p @ take n (map Name (filter (eligible (cfg p)) (e # es)))"
        by (rule exI)
      moreover from all fr True
      have "err = None \<longrightarrow> opened p' = opened p @ map Name (filter (eligible (cfg p)) (e # es))"
        by simp
      ultimately show ?thesis using c fr by simp
    qed
  qed
qed

lemma Run_loop_failure:
  assumes "0 \<le> IDColIdx (cfg p)"
    and "\<forall>e'\<in>set es1. eligible (cfg p) e' \<longrightarrow> fileError (fs p) (Dir (cfg p)) (Name e') = None"
    and "eligible (cfg p) e"
    and "fileError (fs p) (Dir (cfg p)) (Name e) = Some err"
  shows "\<exists>st p'. Run_loop (es1 @ e # es2) stats p =
            Some ((st, Some (Errorf (''failed to process file '' @ Name e) err)), p') \<and>
          opened p' = opened p @ map Name (filter (eligible (cfg p)) es1) @ [Name e]"
  using assms
proof (induction es1 arbitrary: stats p)
  case Nil
  from processFile_error [OF Nil.prems(1), of "Name e" "HasPrefix (Name e) (InsertF (cfg p))"]
  obtain n q where pf: "processFile p (Name e) (HasPrefix (Name e) (InsertF (cfg p))) =
      Some ((n, fileError (fs p) (Dir (cfg p)) (Name e)), q)" by blast
  from processFile_frame [OF pf] pf Nil.prems(3,4) show ?case
    by (simp add: Run_loop_step del: Run_loop.simps)
next
  case (Cons a es1)
  show ?case
  proof (cases "eligible (cfg p) a")
    case False
    from Cons.prems(2) have "\<forall>e'\<in>set es1. eligible (cfg p) e' \<longrightarrow>
        fileError (fs p) (Dir (cfg p)) (Name e') = None" by simp
    from Cons.IH [OF Cons.prems(1) this Cons.prems(3,4), of stats] False
    show ?thesis by (simp add: Run_loop_skip del: Run_loop.simps)
  next
    case True
    let ?ins = "HasPrefix (Name a) (InsertF (cfg p))"
    from Cons.prems(2) True have noerr: "fileError (fs p) (Dir (cfg p)) (Name a) = None" by simp
    from processFile_error [OF Cons.prems(1), of "Name a" ?ins] noerr
    obtain n q where pf: "processFile p (Name a) ?ins = Some ((n, None), q)" by auto
    note fr = processFile_frame [OF pf]
    from fr Cons.prems have q1: "0 \<le> IDColIdx (cfg q)"
      and q2: "\<forall>e'\<in>set es1. eligible (cfg q) e' \<longrightarrow> fileError (fs q) (Dir (cfg q)) (Name e') = None"
      and q3: "eligible (cfg q) e"
      and q4: "fileError (fs q) (Dir (cfg q)) (Name e) = Some err"
      by simp_all
    note IH = Cons.IH [OF q1 q2 q3 q4]
    show ?thesis
    proof (cases ?ins)
      case ins: True
      from IH [of "stats\<lparr>InsertErrors := InsertErrors stats + n\<rparr>"] pf True fr ins
      show ?thesis by (simp add: Run_loop_step del: Run_loop.simps)
    next
      case upd: False
      from IH [of "stats\<lparr>UpdateErrors := UpdateErrors stats + n\<rparr>"] pf True fr upd
      show ?thesis by (simp add: Run_loop_step del: Run_loop.simps)
    qed
  qed
qed

lemma map_insort_key: "map f (insort_key f x xs) = insort (f x) (map f xs)"
  by (induction xs) simp_all

lemma map_sort_key: "map f (sort_key f xs) = sort (map f xs)"
  by (induction xs) (simp_all add: map_insort_key)

lemma eligible_sorted_names:
  "map Name (filter P (sort_key Name entries)) = sort (map Name (filter P entries))"
  by (simp add: filter_sort map_sort_key)

subsection \<open>A run as a sequence of calls of validateRow\<close>

lemma sameRunState_refl [simp]: "sameRunState p p"
  by (simp add: sameRunState_def)

lemma sameRunState_out [simp]:
  "sameRunState (p\<lparr>out := x\<rparr>) q = sameRunState p q"
  "sameRunState (p\<lparr>opened := y\<rparr>) q = sameRunState p q"
  by (simp_all add: sameRunState_def)

lemma processFile_loop_calls:
  "sameRunState p2 p \<Longrightarrow>
   validateRows p (map (\<lambda>recd. (recd, ins)) (rowsRead stream)) = Some rs \<Longrightarrow>
   \<exists>p'. processFile_loop fn ins stream rn ec p2 =
          Some ((ec + int (length (filter (\<lambda>r. IsError (fst r)) rs)), rowsError stream rn), p') \<and>
        sameRunState p' (stateBefore p rs (length rs))"
proof (induction fn ins stream rn ec p2 arbitrary: p rs rule: processFile_loop.induct)
  case (1 filename isInsert rowNum errCount p2)
  then show ?case by simp
next
  case (2 filename isInsert err rest rowNum errCount p2)
  then show ?case by simp
next
  case (3 filename isInsert recd rest rowNum errCount p2)
  from "3.prems"(2) obtain res q rs'
    where step: "validateRow p recd isInsert = Some (res, q)"
      and rest: "validateRows q (map (\<lambda>recd. (recd, isInsert)) (rowsRead rest)) = Some rs'"
      and rs: "rs = (res, q) # rs'"
    by (auto split: option.splits)
  from validateRow_same [OF "3.prems"(1) step] obtain q2
    where step2: "validateRow p2 recd isInsert = Some (res, q2)" and same: "sameRunState q2 q"
    by blast
  show ?case
  proof (cases "IsError res")
    case True
    let ?q3 = "q2\<lparr>out := out q2 @ errorLine filename (rowNum + 1) (Message res) recd\<rparr>"
    from same have "sameRunState ?q3 q" by simp
    from "3.IH"(1) [OF step2 refl True this rest] step2 True rs
    show ?thesis by (simp add: add.assoc)
  next
    case False
    from "3.IH"(2) [OF step2 refl False same rest] step2 False rs
    show ?thesis by simp
  qed
qed

lemma processFile_calls:
  assumes "sameRunState p2 p"
    and "validateRows p (map (\<lambda>recd. (recd, ins)) (dataRows (fs p2) (Dir (cfg p2)) fn)) = Some rs"
  shows "\<exists>p'. processFile p2 fn ins =
           Some ((int (length (filter (\<lambda>r. IsError (fst r)) rs)),
                  fileError (fs p2) (Dir (cfg p2)) fn), p') \<and>
         sameRunState p' (stateBefore p rs (length rs))"
proof (cases "Open (fs p2) (Dir (cfg p2)) fn")
  case (Inl err)
  with assms show ?thesis
    by (simp add: processFile_def fileError_def dataRows_def)
next
  case (Inr stream)
  show ?thesis
  proof (cases stream)
    case Nil
    with Inr assms show ?thesis
      by (simp add: processFile_def fileError_def dataRows_def)
  next
    case (Cons h rest)
    show ?thesis
    proof (cases h)
      case (Inl err)
      with Inr Cons assms show ?thesis
        by (simp add: processFile_def fileError_def dataRows_def)
    next
      case hdr: (Inr header)
      let ?p0 = "p2\<lparr>opened := opened p2 @ [fn]\<rparr>"
      from assms(1) have s: "sameRunState ?p0 p" by simp
      from assms(2) Inr Cons hdr
      have "validateRows p (map (\<lambda>recd. (recd, ins)) (rowsRead rest)) = Some rs"
        by (simp add: dataRows_def)
      from processFile_loop_calls [OF s this, of fn 1 0] Inr Cons hdr
      show ?thesis by (simp add: processFile_def fileError_def)
    qed
  qed
qed

lemma errorCount_append:
  "length xs = length rs1 \<Longrightarrow>
   errorCount b (xs @ ys) (rs1 @ rs2) = errorCount b xs rs1 + errorCount b ys rs2"
  by (simp add: errorCount_def)

lemma errorCount_file:
  "length rows = length rs \<Longrightarrow>
   errorCount b (map (\<lambda>recd. (recd, ins)) rows) rs =
     (if b = ins then int (length (filter (\<lambda>r. IsError (fst r)) rs)) else 0)"
proof (induction rows arbitrary: rs)
  case Nil
  then show ?case by (simp add: errorCount_def)
next
  case (Cons a rows)
  then obtain r rs' where rs: "rs = r # rs'" by (cases rs) auto
  with Cons.prems have "length rows = length rs'" by simp
  from Cons.IH [OF this] rs show ?case by (auto simp add: errorCount_def)
qed

lemma errorCount_Nil [simp]: "errorCount b [] [] = 0"
  by (simp add: errorCount_def)

lemma Run_loop_calls:
  "sameRunState p2 p \<Longrightarrow> validateRows p (runCalls (cfg p2) (fs p2) es) = Some rs \<Longrightarrow>
   \<exists>st err p'. Run_loop es stats p2 = Some ((st, err), p') \<and>
     sameRunState p' (stateBefore p rs (length rs)) \<and>
     (err = None \<longrightarrow>
        InsertErrors st =
          InsertErrors stats + errorCount True (runCalls (cfg p2) (fs p2) es) rs \<and>
        UpdateErrors st =
          UpdateErrors stats + errorCount False (runCalls (cfg p2) (fs p2) es) rs)"
proof (induction es arbitrary: p2 p rs stats)
  case Nil
  then show ?case by simp
next
  case (Cons e es)
  show ?case
  proof (cases "eligible (cfg p2) e")
    case False
    with Cons.prems(2) have "validateRows p (runCalls (cfg p2) (fs p2) es) = Some rs" by simp
    from Cons.IH [OF Cons.prems(1) this, of stats] False
    show ?thesis by (simp add: Run_loop_skip del: Run_loop.simps)
  next
    case True
    let ?ins = "HasPrefix (Name e) (InsertF (cfg p2))"
    let ?fc = "map (\<lambda>recd. (recd, ?ins)) (dataRows (fs p2) (Dir (cfg p2)) (Name e))"
    let ?rest = "if fileError (fs p2) (Dir (cfg p2)) (Name e) = None
                 then runCalls (cfg p2) (fs p2) es else []"
    from Cons.prems(2) True have "validateRows p (?fc @ ?rest) = Some rs" by simp
    from validateRows_append [OF this] obtain rs1 rs2
      where a: "validateRows p ?fc = Some rs1"
        and b: "validateRows (stateBefore p rs1 (length rs1)) ?rest = Some rs2"
        and c: "rs = rs1 @ rs2"
        and d: "stateBefore p rs (length rs) =
                stateBefore (stateBefore p rs1 (length rs1)) rs2 (length rs2)"
      by blast
    from processFile_calls [OF Cons.prems(1) a] obtain q
      where pf: "processFile p2 (Name e) ?ins =
                   Some ((int (length (filter (\<lambda>r. IsError (fst r)) rs1)),
                          fileError (fs p2) (Dir (cfg p2)) (Name e)), q)"
        and same: "sameRunState q (stateBefore p rs1 (length rs1))"
      by blast
    note fr = processFile_frame [OF pf]
    from validateRows_length [OF a] have len: "length ?fc = length rs1" by simp
    show ?thesis
    proof (cases "fileError (fs p2) (Dir (cfg p2)) (Name e)")
      case (Some x)
      with b have "rs2 = []" by simp
      with Some pf True same c show ?thesis
        by (simp add: Run_loop_step del: Run_loop.simps)
    next
      case None
      with b fr have b': "validateRows (stateBefore p rs1 (length rs1))
                            (runCalls (cfg q) (fs q) es) = Some rs2" by simp
      have cnt: "errorCount t (?fc @ runCalls (cfg p2) (fs p2) es) rs =
                 (if t = ?ins then int (length (filter (\<lambda>r. IsError (fst r)) rs1)) else 0) +
                 errorCount t (runCalls (cfg p2) (fs p2) es) rs2" for t
        using errorCount_append [OF len] errorCount_file [of "dataRows (fs p2) (Dir (cfg p2)) (Name e)" rs1]
          len c by simp
      show ?thesis
      proof (cases ?ins)
        case ins: True
        from Cons.IH [OF same b',
            of "stats\<lparr>InsertErrors := InsertErrors stats +
                  int (length (filter (\<lambda>r. IsError (fst r)) rs1))\<rparr>"]
        obtain st err p' where
          "Run_loop es (stats\<lparr>InsertErrors := InsertErrors stats +
                  int (length (filter (\<lambda>r. IsError (fst r)) rs1))\<rparr>) q = Some ((st, err), p')"
          and "sameRunState p' (stateBefore (stateBefore p rs1 (length rs1)) rs2 (length rs2))"
          and "err = None \<longrightarrow>
                 InsertErrors st = InsertErrors stats +
                     int (length (filter (\<lambda>r. IsError (fst r)) rs1)) +
                     errorCount True (runCalls (cfg q) (fs q) es) rs2 \<and>
                 UpdateErrors st = UpdateErrors stats +
                     errorCount False (runCalls (cfg q) (fs q) es) rs2"
          by auto
        with pf True None ins fr d cnt [of True] cnt [of False]
        have "Run_loop (e # es) stats p2 = Some ((st, err), p') \<and>
              sameRunState p' (stateBefore p rs (length rs)) \<and>
              (err = None \<longrightarrow>
                 InsertErrors st =
                   InsertErrors stats + errorCount True (runCalls (cfg p2) (fs p2) (e # es)) rs \<and>
                 UpdateErrors st =
                   UpdateErrors stats + errorCount False (runCalls (cfg p2) (fs p2) (e # es)) rs)"
          by (simp add: Run_loop_step del: Run_loop.simps)
        then show ?thesis by blast
      next
        case upd: False
        from Cons.IH [OF same b',
            of "stats\<lparr>UpdateErrors := UpdateErrors stats +
                  int (length (filter (\<lambda>r. IsError (fst r)) rs1))\<rparr>"]
        obtain st err p' where
          "Run_loop es (stats\<lparr>UpdateErrors := UpdateErrors stats +
                  int (length (filter (\<lambda>r. IsError (fst r)) rs1))\<rparr>) q = Some ((st, err), p')"
          and "sameRunState p' (stateBefore (stateBefore p rs1 (length rs1)) rs2 (length rs2))"
          and "err = None \<longrightarrow>
                 InsertErrors st = InsertErrors stats +
                     errorCount True (runCalls (cfg q) (fs q) es) rs2 \<and>
                 UpdateErrors st = UpdateErrors stats +
                     int (length (filter (\<lambda>r. IsError (fst r)) rs1)) +
                     errorCount False (runCalls (cfg q) (fs q) es) rs2"
          by auto
        with pf True None upd fr d cnt [of True] cnt [of False]
        have "Run_loop (e # es) stats p2 = Some ((st, err), p') \<and>
              sameRunState p' (stateBefore p rs (length rs)) \<and>
              (err = None \<longrightarrow>
                 InsertErrors st =
                   InsertErrors stats + errorCount True (runCalls (cfg p2) (fs p2) (e # es)) rs \<and>
                 UpdateErrors st =
                   UpdateErrors stats + errorCount False (runCalls (cfg p2) (fs p2) (e # es)) rs)"
          by (simp add: Run_loop_step del: Run_loop.simps)
        then show ?thesis by blast
      qed
    qed
  qed
qed

text \<open>
  A run is the sequence of calls \<open>runCalls\<close>: it ends with the two sets of identifiers
  that the calls leave, and on success its statistics count the calls in error, those
  of insert files and those of update files.
\<close>

lemma Run_calls:
  assumes "ReadDir (fs p) (Dir (cfg p)) = Inr entries"
    and "validateRows p (runCalls (cfg p) (fs p) (sort_key Name entries)) = Some rs"
  shows "\<exists>st err p'. Run p = Some ((st, err), p') \<and>
           sameRunState p' (stateBefore p rs (length rs)) \<and>
           (err = None \<longrightarrow>
              st = Some \<lparr>InsertErrors =
                           errorCount True (runCalls (cfg p) (fs p) (sort_key Name entries)) rs,
                         UpdateErrors =
                           errorCount False (runCalls (cfg p) (fs p) (sort_key Name entries)) rs\<rparr>)"
proof -
  from Run_loop_calls [OF sameRunState_refl assms(2), of "\<lparr>InsertErrors = 0, UpdateErrors = 0\<rparr>"]
  obtain st err p' where
    loop: "Run_loop (sort_key Name entries) \<lparr>InsertErrors = 0, UpdateErrors = 0\<rparr> p =
             Some ((st, err), p')"
    and same: "sameRunState p' (stateBefore p rs (length rs))"
    and cnt: "err = None \<longrightarrow>
        InsertErrors st = errorCount True (runCalls (cfg p) (fs p) (sort_key Name entries)) rs \<and>
        UpdateErrors st = errorCount False (runCalls (cfg p) (fs p) (sort_key Name entries)) rs"
    by auto
  show ?thesis
  proof (cases err)
    case None
    with loop same cnt assms(1) show ?thesis by (simp add: Run_def)
  next
    case (Some x)
    with loop same assms(1) show ?thesis by (simp add: Run_def)
  qed
qed

lemma Run_total:
  assumes "0 \<le> IDColIdx (cfg p)"
  shows "\<exists>st err p'. Run p = Some ((st, err), p')"
proof (cases "ReadDir (fs p) (Dir (cfg p))")
  case (Inl err)
  then show ?thesis by (simp add: Run_def)
next
  case (Inr entries)
  from validateRows_total [OF assms] obtain rs
    where "validateRows p (runCalls (cfg p) (fs p) (sort_key Name entries)) = Some rs" by blast
  from Run_calls [OF Inr this] show ?thesis by blast
qed

section \<open>The claims\<close>

text \<open>
  C1. When a call of validateRow reports an identifier with the message of the second
  occurrence in an insert file or of the minimum rule, the identifier is in \<open>errorIDs\<close>
  afterwards. Whatever calls follow, none of them panics, the identifier is in
  \<open>errorIDs\<close> after each of them, and every one whose row bears the identifier, in an
  insert or an update file, returns an error with the message of the repeated subject
  and leaves the processor as it found it. That message differs from the other two.
\<close>

theorem errored_identifier_repeats:
  assumes first: "validateRow p0 recd0 ins0 = Some (res0, p)"
    and err: "IsError res0"
    and why: "Message res0 = msg_dup \<or> Message res0 = msg_min"
    and ident: "ident = recd0 ! nat (IDColIdx (cfg p0))"
  shows "lookup (errorIDs p) ident \<and>
         (\<exists>rs. validateRows p calls = Some rs \<and>
            (\<forall>i<length calls.
               lookup (errorIDs (snd (rs ! i))) ident \<and>
               (bears (cfg p) (fst (calls ! i)) ident \<longrightarrow>
                  rs ! i = (\<lparr>IsError = True, Message = msg_repeat\<rparr>, stateBefore p rs i)))) \<and>
         msg_repeat \<noteq> msg_dup \<and> msg_repeat \<noteq> msg_min"
proof -
  from validateRow_cases [OF first] err ident have b0: "bears (cfg p0) recd0 ident"
    by auto
  have marked: "p = markError p0 ident"
    using first err why msgs_distinct
    by (auto simp add: validateRow_bears [OF b0] split: if_splits sum.splits)
  then have errd: "lookup (errorIDs p) ident" by simp
  from b0 marked have idx: "0 \<le> IDColIdx (cfg p)" by (simp add: bears_def)
  from validateRows_total [OF idx] obtain rs where rs: "validateRows p calls = Some rs"
    by blast
  have "lookup (errorIDs (snd (rs ! i))) ident \<and>
        (bears (cfg p) (fst (calls ! i)) ident \<longrightarrow>
           rs ! i = (\<lparr>IsError = True, Message = msg_repeat\<rparr>, stateBefore p rs i))"
    if i: "i < length calls" for i
  proof -
    from i have "Suc i \<le> length calls" by simp
    from validateRows_errored_mono [OF rs errd this]
    have after: "lookup (errorIDs (snd (rs ! i))) ident" by (simp add: stateBefore_after)
    from i have "i \<le> length calls" by simp
    from validateRows_errored_mono [OF rs errd this]
    have before: "lookup (errorIDs (stateBefore p rs i)) ident" .
    from validateRows_step [OF rs i]
    have step: "validateRow (stateBefore p rs i) (fst (calls ! i)) (snd (calls ! i)) = Some (rs ! i)"
      and c: "cfg (stateBefore p rs i) = cfg p" by simp_all
    have "rs ! i = (\<lparr>IsError = True, Message = msg_repeat\<rparr>, stateBefore p rs i)"
      if b: "bears (cfg p) (fst (calls ! i)) ident"
    proof -
      from b c have "bears (cfg (stateBefore p rs i)) (fst (calls ! i)) ident" by simp
      from validateRow_bears [OF this, of "snd (calls ! i)"] before step
      show ?thesis by simp
    qed
    with after show ?thesis by blast
  qed
  with rs errd msgs_distinct show ?thesis by blast
qed

theorem errored_identifier_repeats_witness:
  "validateRow (NewProcessor (testCfg 200) (mockFS [])) [''100'', ''F''] True =
     Some (\<lparr>IsError = True, Message = msg_min\<rparr>,
           (NewProcessor (testCfg 200) (mockFS []))\<lparr>errorIDs := [''100'' \<mapsto> True]\<rparr>) \<and>
   IsError \<lparr>IsError = True, Message = msg_min\<rparr> \<and>
   lookup (errorIDs ((NewProcessor (testCfg 200) (mockFS []))\<lparr>errorIDs := [''100'' \<mapsto> True]\<rparr>)) ''100'' \<and>
   validateRows ((NewProcessor (testCfg 200) (mockFS []))\<lparr>errorIDs := [''100'' \<mapsto> True]\<rparr>)
       [([''100'', ''T''], False), ([''100'', ''U''], True)] =
     Some [(\<lparr>IsError = True, Message = msg_repeat\<rparr>,
            (NewProcessor (testCfg 200) (mockFS []))\<lparr>errorIDs := [''100'' \<mapsto> True]\<rparr>),
           (\<lparr>IsError = True, Message = msg_repeat\<rparr>,
            (NewProcessor (testCfg 200) (mockFS []))\<lparr>errorIDs := [''100'' \<mapsto> True]\<rparr>)]"
proof -
  let ?fresh = "NewProcessor (testCfg 200) (mockFS [])"
  let ?p = "?fresh\<lparr>errorIDs := [''100'' \<mapsto> True]\<rparr>"
  let ?res = "\<lparr>IsError = True, Message = msg_min\<rparr>"
  let ?calls = "[([''100'', ''T''], False), ([''100'', ''U''], True)]"
  have h1: "validateRow ?fresh [''100'', ''F''] True = Some (?res, ?p)"
    by (simp add: eval_defs)
  have h2: "IsError ?res" by simp
  have h3: "Message ?res = msg_dup \<or> Message ?res = msg_min" by simp
  have h4: "''100'' = [''100'', ''F''] ! nat (IDColIdx (cfg ?fresh))"
    by (simp add: NewProcessor_def testCfg_def)
  from errored_identifier_repeats [OF h1 h2 h3 h4, of ?calls]
  obtain rs where rs: "validateRows ?p ?calls = Some rs"
    and errd: "lookup (errorIDs ?p) ''100''"
    and each: "\<forall>i<length ?calls. bears (cfg ?p) (fst (?calls ! i)) ''100'' \<longrightarrow>
                 rs ! i = (\<lparr>IsError = True, Message = msg_repeat\<rparr>, stateBefore ?p rs i)"
    by blast
  from validateRows_length [OF rs] have len: "length rs = 2" by simp
  have b: "bears (cfg ?p) [''100'', ''T''] ''100''" "bears (cfg ?p) [''100'', ''U''] ''100''"
    by (simp_all add: bears_def NewProcessor_def testCfg_def)
  from each b have r0: "rs ! 0 = (\<lparr>IsError = True, Message = msg_repeat\<rparr>, ?p)"
    by auto
  from each b have "rs ! 1 = (\<lparr>IsError = True, Message = msg_repeat\<rparr>, stateBefore ?p rs 1)"
    by auto
  with r0 have r1: "rs ! 1 = (\<lparr>IsError = True, Message = msg_repeat\<rparr>, ?p)"
    by (simp add: stateBefore_def)
  from len r0 r1 have "rs = [(\<lparr>IsError = True, Message = msg_repeat\<rparr>, ?p),
                             (\<lparr>IsError = True, Message = msg_repeat\<rparr>, ?p)]"
    by (cases rs; cases "tl rs") auto
  with rs h1 h2 errd show ?thesis by simp
qed

text \<open>
  C2. An insert row whose identifier is not in \<open>errorIDs\<close>, is in \<open>seenIDs\<close> and parses
  as a 64-bit integer below the minimum gets the message of the second occurrence in an
  insert file, which is not the message of the minimum rule: the duplicate check comes
  first.
\<close>

theorem duplicate_before_minimum:
  assumes "bears (cfg p) recd ident"
    and "\<not> lookup (errorIDs p) ident"
    and "lookup (seenIDs p) ident"
    and "ParseInt ident = Inr v"
    and "v <s MinID (cfg p)"
  shows "validateRow p recd True =
           Some (\<lparr>IsError = True, Message = msg_dup\<rparr>, markError p ident) \<and>
         msg_dup \<noteq> msg_min"
  using assms by (simp add: validateRow_bears msgs_distinct)

theorem duplicate_before_minimum_witness:
  "bears (cfg ((NewProcessor (testCfg 200) (mockFS []))\<lparr>seenIDs := [''100'' \<mapsto> True]\<rparr>)) [''100'', ''T''] ''100'' \<and>
   \<not> lookup (errorIDs ((NewProcessor (testCfg 200) (mockFS []))\<lparr>seenIDs := [''100'' \<mapsto> True]\<rparr>)) ''100'' \<and>
   lookup (seenIDs ((NewProcessor (testCfg 200) (mockFS []))\<lparr>seenIDs := [''100'' \<mapsto> True]\<rparr>)) ''100'' \<and>
   ParseInt ''100'' = Inr 100 \<and>
   (100 :: int64) <s MinID (cfg ((NewProcessor (testCfg 200) (mockFS []))\<lparr>seenIDs := [''100'' \<mapsto> True]\<rparr>)) \<and>
   validateRow ((NewProcessor (testCfg 200) (mockFS []))\<lparr>seenIDs := [''100'' \<mapsto> True]\<rparr>) [''100'', ''T''] True =
     Some (\<lparr>IsError = True, Message = msg_dup\<rparr>,
           markError ((NewProcessor (testCfg 200) (mockFS []))\<lparr>seenIDs := [''100'' \<mapsto> True]\<rparr>) ''100'')"
proof -
  let ?p = "(NewProcessor (testCfg 200) (mockFS []))\<lparr>seenIDs := [''100'' \<mapsto> True]\<rparr>"
  have h1: "bears (cfg ?p) [''100'', ''T''] ''100''"
    by (simp add: bears_def NewProcessor_def testCfg_def)
  have h2: "\<not> lookup (errorIDs ?p) ''100''"
    by (simp add: lookup_def NewProcessor_def)
  have h3: "lookup (seenIDs ?p) ''100''"
    by (simp add: lookup_def NewProcessor_def)
  have h4: "ParseInt ''100'' = Inr 100"
    by (simp add: ParseInt_def ParseUint_def isDigit_def cutoff64_def)
  have h5: "(100 :: int64) <s MinID (cfg ?p)"
    by (simp add: NewProcessor_def testCfg_def)
  from duplicate_before_minimum [OF h1 h2 h3 h4 h5] h1 h2 h3 h4 h5
  show ?thesis by blast
qed

text \<open>
  C3, as the code has it. Take an identifier that parses and is not below the minimum, a
  run from a new processor, and a row that bears the identifier. In an insert file the
  row is no error when no earlier insert row bore the identifier, and an error when one
  did. In an update file the row is an error exactly when at least two earlier insert
  rows bore the identifier, that is once the duplicate rule has put it in \<open>errorIDs\<close>.
\<close>

theorem insert_occurrences_classified:
  assumes "ParseInt ident = Inr v" and "\<not> v <s MinID c"
    and "validateRows (NewProcessor c f) calls = Some rs" and "i < length calls"
    and "bears c (fst (calls ! i)) ident"
  shows "IsError (fst (rs ! i)) \<longleftrightarrow>
           (if snd (calls ! i) then 1 \<le> insOcc c ident (take i calls)
            else 2 \<le> insOcc c ident (take i calls))"
proof -
  have c: "cfg (NewProcessor c f) = c" by (simp add: NewProcessor_def)
  from assms c classify_from_state [of ident v "NewProcessor c f" calls rs i]
  show ?thesis by (simp add: NewProcessor_def lookup_def)
qed

theorem insert_occurrences_classified_witness:
  "ParseInt ''100'' = Inr 100 \<and> \<not> (100 :: int64) <s MinID (testCfg 100) \<and>
   map_option (map (\<lambda>r. IsError (fst r)))
     (validateRows (NewProcessor (testCfg 100) (mockFS []))
        [([''100'', ''Ok''], True), ([''100'', ''Update''], False),
         ([''100'', ''Dup''], True), ([''100'', ''Again''], False)]) =
     Some [False, False, True, True] \<and>
   insOcc (testCfg 100) ''100''
     (take 2 [([''100'', ''Ok''], True), ([''100'', ''Update''], False),
              ([''100'', ''Dup''], True), ([''100'', ''Again''], False)]) = 1"
proof -
  let ?p = "NewProcessor (testCfg 100) (mockFS [])"
  let ?calls = "[([''100'', ''Ok''], True), ([''100'', ''Update''], False),
                 ([''100'', ''Dup''], True), ([''100'', ''Again''], False)]"
  let ?a = "?p\<lparr>seenIDs := [''100'' \<mapsto> True]\<rparr>"
  let ?b = "?p\<lparr>seenIDs := [''100'' \<mapsto> True], errorIDs := [''100'' \<mapsto> True]\<rparr>"
  let ?rs = "[(passResult, ?a), (passResult, ?a),
              (\<lparr>IsError = True, Message = msg_dup\<rparr>, ?b),
              (\<lparr>IsError = True, Message = msg_repeat\<rparr>, ?b)]"
  have h1: "ParseInt ''100'' = Inr 100"
    by (simp add: ParseInt_def ParseUint_def isDigit_def cutoff64_def)
  have h2: "\<not> (100 :: int64) <s MinID (testCfg 100)"
    by (simp add: testCfg_def)
  have h3: "validateRows ?p ?calls = Some ?rs"
    by (simp add: eval_defs)
  have h4: "(2::nat) < length ?calls" by simp
  have h5: "bears (testCfg 100) (fst (?calls ! 2)) ''100''"
    by (simp add: bears_def testCfg_def)
  have k: "insOcc (testCfg 100) ''100'' (take 2 ?calls) = 1"
    by (simp add: insOcc_def bears_def testCfg_def numeral_2_eq_2)
  from insert_occurrences_classified [OF h1 h2 h3 h4 h5] k
  have "IsError (fst (?rs ! 2))" by simp
  with h1 h2 h3 k show ?thesis by (simp add: passResult_def)
qed

text \<open>
  C3 as stated fails: identifier 100 with minimum 100 is accepted in INS_01.csv, and its
  next occurrence, in UPD_01.csv, is no error. The run of the test on these two files
  returns zero errors in both totals.
\<close>

theorem insert_then_update_counterexample:
  "ParseInt ''100'' = Inr 100 \<and> \<not> (100 :: int64) <s MinID (testCfg 100) \<and>
   map_option (map (\<lambda>r. IsError (fst r)))
     (validateRows (NewProcessor (testCfg 100) (mockFS []))
        [([''100'', ''Ok''], True), ([''100'', ''Update''], False)]) =
     Some [False, False] \<and>
   map_option fst (Run (NewProcessor (testCfg 100)
       (mockFS [(''INS_01.csv'', [Inr [''ID'', ''Flag''], Inr [''100'', ''Ok'']]),
                (''UPD_01.csv'', [Inr [''ID'', ''Flag''], Inr [''100'', ''Update'']])]))) =
     Some (Some \<lparr>InsertErrors = 0, UpdateErrors = 0\<rparr>, None)"
  by (simp add: eval_defs run_defs)

text \<open>
  C4. A call of validateRow on a row of an update file that returns leaves the processor,
  and so both sets of identifiers, as it was. In a run from a new processor, a row of an
  update file whose identifier no earlier row of an insert file bore is classified as no
  error.
\<close>

theorem update_row_frame:
  "(validateRow p recd False = Some (res, p') \<longrightarrow> p' = p) \<and>
   (validateRows (NewProcessor c f) calls = Some rs \<and> i < length calls \<and>
    calls ! i = (recd, False) \<and> bears c recd ident \<and>
    (\<forall>j<i. snd (calls ! j) \<longrightarrow> \<not> bears c (fst (calls ! j)) ident) \<longrightarrow>
      rs ! i = (passResult, stateBefore (NewProcessor c f) rs i))"
proof (intro conjI impI)
  assume "validateRow p recd False = Some (res, p')"
  then show "p' = p"
    by (auto simp add: validateRow_def Let_def split: if_splits)
next
  let ?p = "NewProcessor c f"
  assume a: "validateRows ?p calls = Some rs \<and> i < length calls \<and>
    calls ! i = (recd, False) \<and> bears c recd ident \<and>
    (\<forall>j<i. snd (calls ! j) \<longrightarrow> \<not> bears c (fst (calls ! j)) ident)"
  then have rs: "validateRows ?p calls = Some rs" and i: "i < length calls"
    and call: "calls ! i = (recd, False)" and b: "bears c recd ident"
    and none: "\<forall>j<i. \<not> (snd (calls ! j) \<and> bears (cfg ?p) (fst (calls ! j)) ident)"
    by (simp_all add: NewProcessor_def)
  from i have "i \<le> length calls" by simp
  from validateRows_other [OF rs this none]
  have clean: "\<not> lookup (errorIDs (stateBefore ?p rs i)) ident"
    by (simp add: NewProcessor_def lookup_def)
  from validateRows_step [OF rs i] call
  have step: "validateRow (stateBefore ?p rs i) recd False = Some (rs ! i)"
    and c: "cfg (stateBefore ?p rs i) = c" by (simp_all add: NewProcessor_def)
  from b c have "bears (cfg (stateBefore ?p rs i)) recd ident" by simp
  from validateRow_bears [OF this, of False] clean step
  show "rs ! i = (passResult, stateBefore ?p rs i)" by simp
qed

theorem update_row_frame_witness:
  "validateRow (NewProcessor (testCfg 100) (mockFS [])) [''999'', ''T''] False =
     Some (passResult, NewProcessor (testCfg 100) (mockFS [])) \<and>
   validateRows (NewProcessor (testCfg 100) (mockFS []))
       [([''100'', ''A''], True), ([''100'', ''B''], True), ([''999'', ''T''], False)] =
     Some [(passResult,
            (NewProcessor (testCfg 100) (mockFS []))\<lparr>seenIDs := [''100'' \<mapsto> True]\<rparr>),
           (\<lparr>IsError = True, Message = msg_dup\<rparr>,
            (NewProcessor (testCfg 100) (mockFS []))
              \<lparr>seenIDs := [''100'' \<mapsto> True], errorIDs := [''100'' \<mapsto> True]\<rparr>),
           (passResult,
            (NewProcessor (testCfg 100) (mockFS []))
              \<lparr>seenIDs := [''100'' \<mapsto> True], errorIDs := [''100'' \<mapsto> True]\<rparr>)] \<and>
   bears (testCfg 100) [''999'', ''T''] ''999''"
proof -
  let ?p = "NewProcessor (testCfg 100) (mockFS [])"
  let ?calls = "[([''100'', ''A''], True), ([''100'', ''B''], True), ([''999'', ''T''], False)]"
  let ?q = "?p\<lparr>seenIDs := [''100'' \<mapsto> True], errorIDs := [''100'' \<mapsto> True]\<rparr>"
  let ?rs = "[(passResult, ?p\<lparr>seenIDs := [''100'' \<mapsto> True]\<rparr>),
              (\<lparr>IsError = True, Message = msg_dup\<rparr>, ?q), (passResult, ?q)]"
  have h1: "validateRow ?p [''999'', ''T''] False = Some (passResult, ?p)"
    by (simp add: eval_defs)
  have h2: "validateRows ?p ?calls = Some ?rs"
    by (simp add: eval_defs)
  have h3: "(2::nat) < length ?calls" by simp
  have h4: "?calls ! 2 = ([''999'', ''T''], False)" by simp
  have h5: "bears (testCfg 100) [''999'', ''T''] ''999''"
    by (simp add: bears_def testCfg_def)
  have h6: "\<forall>j<2. snd (?calls ! j) \<longrightarrow> \<not> bears (testCfg 100) (fst (?calls ! j)) ''999''"
    by (simp add: bears_def testCfg_def less_Suc_eq numeral_2_eq_2)
  from update_row_frame [of ?p "[''999'', ''T'']" passResult ?p "testCfg 100" "mockFS []" ?calls ?rs 2 "''999''"]
    h1 h2 h3 h4 h5 h6
  have "?p = ?p \<and> ?rs ! 2 = (passResult, stateBefore ?p ?rs 2)" by blast
  with h1 h2 h5 show ?thesis by blast
qed

text \<open>
  C5. An insert row whose identifier does not parse as a 64-bit integer, and is neither in
  \<open>errorIDs\<close> nor in \<open>seenIDs\<close>, is classified as no error, and the string is
  recorded in \<open>seenIDs\<close>. After any further calls in which no insert row bears that
  string, an insert row that bears it is an error with the message of the second
  occurrence in an insert file.
\<close>

theorem unparsable_identifier_accepted:
  assumes b: "bears (cfg p) recd ident"
    and parse: "ParseInt ident = Inl e"
    and notErr: "\<not> lookup (errorIDs p) ident"
    and notSeen: "\<not> lookup (seenIDs p) ident"
    and rs: "validateRows (p\<lparr>seenIDs := (seenIDs p)(ident \<mapsto> True)\<rparr>) calls = Some rs"
    and between: "\<forall>call\<in>set calls. \<not> (snd call \<and> bears (cfg p) (fst call) ident)"
    and later: "bears (cfg p) recd' ident"
  shows "validateRow p recd True =
           Some (passResult, p\<lparr>seenIDs := (seenIDs p)(ident \<mapsto> True)\<rparr>) \<and>
         validateRow (stateBefore (p\<lparr>seenIDs := (seenIDs p)(ident \<mapsto> True)\<rparr>) rs (length calls))
             recd' True =
           Some (\<lparr>IsError = True, Message = msg_dup\<rparr>,
                 markError (stateBefore (p\<lparr>seenIDs := (seenIDs p)(ident \<mapsto> True)\<rparr>) rs (length calls))
                   ident)"
proof -
  let ?p1 = "p\<lparr>seenIDs := (seenIDs p)(ident \<mapsto> True)\<rparr>"
  let ?q = "stateBefore ?p1 rs (length calls)"
  from b parse notErr notSeen
  have first: "validateRow p recd True = Some (passResult, ?p1)"
    by (simp add: validateRow_bears)
  from between have none: "\<forall>j<length calls. \<not> (snd (calls ! j) \<and> bears (cfg ?p1) (fst (calls ! j)) ident)"
    by simp
  from validateRows_other [OF rs order_refl none] notErr
  have e: "\<not> lookup (errorIDs ?q) ident" and s: "lookup (seenIDs ?q) ident" by simp_all
  have c: "cfg ?q = cfg p"
    using validateRows_cfg [OF rs order_refl] by simp
  from later c have "bears (cfg ?q) recd' ident" by simp
  from validateRow_bears [OF this, of True] e s first show ?thesis by simp
qed

theorem unparsable_identifier_accepted_witness:
  "bears (cfg (NewProcessor (testCfg 100) (mockFS []))) [''ABC'', ''F''] ''ABC'' \<and>
   ParseInt ''ABC'' = Inl ErrSyntax \<and>
   validateRow (NewProcessor (testCfg 100) (mockFS [])) [''ABC'', ''F''] True =
     Some (passResult, (NewProcessor (testCfg 100) (mockFS []))\<lparr>seenIDs := [''ABC'' \<mapsto> True]\<rparr>) \<and>
   validateRows ((NewProcessor (testCfg 100) (mockFS []))\<lparr>seenIDs := [''ABC'' \<mapsto> True]\<rparr>)
       [([''50'', ''T''], True), ([''ABC'', ''U''], False)] =
     Some [(\<lparr>IsError = True, Message = msg_min\<rparr>,
            (NewProcessor (testCfg 100) (mockFS []))
              \<lparr>seenIDs := [''ABC'' \<mapsto> True], errorIDs := [''50'' \<mapsto> True]\<rparr>),
           (passResult,
            (NewProcessor (testCfg 100) (mockFS []))
              \<lparr>seenIDs := [''ABC'' \<mapsto> True], errorIDs := [''50'' \<mapsto> True]\<rparr>)] \<and>
   validateRow ((NewProcessor (testCfg 100) (mockFS []))
                  \<lparr>seenIDs := [''ABC'' \<mapsto> True], errorIDs := [''50'' \<mapsto> True]\<rparr>)
       [''ABC'', ''G''] True =
     Some (\<lparr>IsError = True, Message = msg_dup\<rparr>,
           markError ((NewProcessor (testCfg 100) (mockFS []))
                  \<lparr>seenIDs := [''ABC'' \<mapsto> True], errorIDs := [''50'' \<mapsto> True]\<rparr>) ''ABC'')"
proof -
  let ?p = "NewProcessor (testCfg 100) (mockFS [])"
  let ?p1 = "?p\<lparr>seenIDs := [''ABC'' \<mapsto> True]\<rparr>"
  let ?q = "?p\<lparr>seenIDs := [''ABC'' \<mapsto> True], errorIDs := [''50'' \<mapsto> True]\<rparr>"
  let ?calls = "[([''50'', ''T''], True), ([''ABC'', ''U''], False)]"
  let ?rs = "[(\<lparr>IsError = True, Message = msg_min\<rparr>, ?q), (passResult, ?q)]"
  have h1: "bears (cfg ?p) [''ABC'', ''F''] ''ABC''"
    by (simp add: bears_def NewProcessor_def testCfg_def)
  have h2: "ParseInt ''ABC'' = Inl ErrSyntax"
    by (simp add: ParseInt_def ParseUint_def isDigit_def)
  have h3: "\<not> lookup (errorIDs ?p) ''ABC''" by (simp add: lookup_def NewProcessor_def)
  have h4: "\<not> lookup (seenIDs ?p) ''ABC''" by (simp add: lookup_def NewProcessor_def)
  have p1: "?p\<lparr>seenIDs := (seenIDs ?p)(''ABC'' \<mapsto> True)\<rparr> = ?p1"
    by (simp add: NewProcessor_def)
  have h5: "validateRows (?p\<lparr>seenIDs := (seenIDs ?p)(''ABC'' \<mapsto> True)\<rparr>) ?calls = Some ?rs"
    by (simp add: eval_defs)
  have h6: "\<forall>call\<in>set ?calls. \<not> (snd call \<and> bears (cfg ?p) (fst call) ''ABC'')"
    by (simp add: bears_def NewProcessor_def testCfg_def)
  have h7: "bears (cfg ?p) [''ABC'', ''G''] ''ABC''"
    by (simp add: bears_def NewProcessor_def testCfg_def)
  from unparsable_identifier_accepted [OF h1 h2 h3 h4 h5 h6 h7] h1 h2 h5
  show ?thesis by (simp add: p1 stateBefore_def)
qed

text \<open>
  C6. In a run from a new processor on a directory that can be listed, the files are
  opened in ascending byte-wise order of their names: the names opened are an initial
  part of the sorted list of the names of the eligible entries, and the whole of it
  when the run returns no error. The order is that of strings, not of numbers: of
  INS_1.csv, INS_2.csv and INS_10.csv the run opens INS_1.csv, then INS_10.csv, then
  INS_2.csv.
\<close>

theorem files_in_bytewise_order:
  assumes run: "Run (NewProcessor c f) = Some (res, p')"
    and dir: "ReadDir f (Dir c) = Inr entries"
  shows "sorted (opened p') \<and>
         (\<exists>n. opened p' = take n (sort (map Name (filter (eligible c) entries)))) \<and>
         (snd res = None \<longrightarrow> opened p' = sort (map Name (filter (eligible c) entries)))"
proof -
  let ?p = "NewProcessor c f"
  let ?names = "sort (map Name (filter (eligible c) entries))"
  have p: "cfg ?p = c" "fs ?p = f" "opened ?p = []" by (simp_all add: NewProcessor_def)
  from run dir p obtain st err q
    where loop: "Run_loop (sort_key Name entries) \<lparr>InsertErrors = 0, UpdateErrors = 0\<rparr> ?p =
                   Some ((st, err), q)"
      and op: "opened p' = opened q" and res: "snd res = err"
    by (auto simp add: Run_def split: option.splits)
  from Run_loop_opened [OF loop] p op
  have ex: "\<exists>n. opened p' = take n ?names"
    and all: "err = None \<longrightarrow> opened p' = ?names"
    by (simp_all add: eligible_sorted_names)
  from ex obtain n where "opened p' = take n ?names" by blast
  then have "sorted (opened p')" by (simp add: sorted_wrt_take)
  with ex all res show ?thesis by simp
qed

theorem files_in_bytewise_order_witness:
  "Run (NewProcessor (testCfg 100)
       (mockFS [(''INS_1.csv'', [Inr [''ID'', ''Flag''], Inr [''100'', ''First'']]),
                (''INS_2.csv'', [Inr [''ID'', ''Flag''], Inr [''100'', ''Third'']]),
                (''INS_10.csv'', [Inr [''ID'', ''Flag''], Inr [''100'', ''Second'']])])) =
   Some ((Some \<lparr>InsertErrors = 2, UpdateErrors = 0\<rparr>, None),
     (NewProcessor (testCfg 100)
       (mockFS [(''INS_1.csv'', [Inr [''ID'', ''Flag''], Inr [''100'', ''First'']]),
                (''INS_2.csv'', [Inr [''ID'', ''Flag''], Inr [''100'', ''Third'']]),
                (''INS_10.csv'', [Inr [''ID'', ''Flag''], Inr [''100'', ''Second'']])]))
     \<lparr>out := ''INS_10.csv(2) - '' @ msg_dup @ '' : 100,Second'' @ [CHR 0x0A] @
             ''INS_2.csv(2) - '' @ msg_repeat @ '' : 100,Third'' @ [CHR 0x0A] @
             summary_insert @ ''2'' @ summary_update @ ''0'' @ summary_end,
      seenIDs := [''100'' \<mapsto> True],
      errorIDs := [''100'' \<mapsto> True],
      opened := [''INS_1.csv'', ''INS_10.csv'', ''INS_2.csv'']\<rparr>) \<and>
   sort (map Name (filter (eligible (testCfg 100))
     [\<lparr>Name = ''INS_1.csv'', IsDir = False\<rparr>, \<lparr>Name = ''INS_2.csv'', IsDir = False\<rparr>,
      \<lparr>Name = ''INS_10.csv'', IsDir = False\<rparr>])) =
     [''INS_1.csv'', ''INS_10.csv'', ''INS_2.csv''] \<and>
   ''INS_10.csv'' < ''INS_2.csv''"
proof -
  let ?files = "[(''INS_1.csv'', [Inr [''ID'', ''Flag''], Inr [''100'', ''First'']]),
                 (''INS_2.csv'', [Inr [''ID'', ''Flag''], Inr [''100'', ''Third'']]),
                 (''INS_10.csv'', [Inr [''ID'', ''Flag''], Inr [''100'', ''Second'']])]"
  let ?p = "NewProcessor (testCfg 100) (mockFS ?files)"
  let ?entries = "[\<lparr>Name = ''INS_1.csv'', IsDir = False\<rparr>, \<lparr>Name = ''INS_2.csv'', IsDir = False\<rparr>,
      \<lparr>Name = ''INS_10.csv'', IsDir = False\<rparr>]"
  let ?q = "?p\<lparr>out := ''INS_10.csv(2) - '' @ msg_dup @ '' : 100,Second'' @ [CHR 0x0A] @
             ''INS_2.csv(2) - '' @ msg_repeat @ '' : 100,Third'' @ [CHR 0x0A] @
             summary_insert @ ''2'' @ summary_update @ ''0'' @ summary_end,
      seenIDs := [''100'' \<mapsto> True],
      errorIDs := [''100'' \<mapsto> True],
      opened := [''INS_1.csv'', ''INS_10.csv'', ''INS_2.csv'']\<rparr>"
  have h1: "Run ?p = Some ((Some \<lparr>InsertErrors = 2, UpdateErrors = 0\<rparr>, None), ?q)"
    by (simp add: eval_defs run_defs)
  have h2: "ReadDir (mockFS ?files) (Dir (testCfg 100)) = Inr ?entries"
    by (simp add: mockFS_def)
  have lt: "''INS_10.csv'' < ''INS_2.csv''" by simp
  from files_in_bytewise_order [OF h1 h2]
  have "opened ?q = sort (map Name (filter (eligible (testCfg 100)) ?entries))" by simp
  then have "sort (map Name (filter (eligible (testCfg 100)) ?entries)) =
      [''INS_1.csv'', ''INS_10.csv'', ''INS_2.csv'']" by simp
  with h1 lt show ?thesis by blast
qed

text \<open>
  C7. Let the sorted listing be \<open>es1 @ e # es2\<close>, where no eligible file of \<open>es1\<close>
  fails and the eligible file \<open>e\<close> fails with \<open>err\<close>: its \<^verbatim>\<open>Open\<close> fails, or the read
  of its header or of one of its rows does. Then \<^verbatim>\<open>Run\<close> returns no statistics and the
  error \<open>err\<close> wrapped under a message that names the file, and \<open>e\<close> is the last file
  opened. In the run of the example the first file has a row in error, whose line is
  written, and the second file fails at line 3.
\<close>

theorem file_failure_aborts_run:
  assumes "0 \<le> IDColIdx (cfg p)"
    and "ReadDir (fs p) (Dir (cfg p)) = Inr entries"
    and "sort_key Name entries = es1 @ e # es2"
    and "\<forall>e'\<in>set es1. eligible (cfg p) e' \<longrightarrow> fileError (fs p) (Dir (cfg p)) (Name e') = None"
    and "eligible (cfg p) e"
    and "fileError (fs p) (Dir (cfg p)) (Name e) = Some err"
  shows "\<exists>p'. Run p =
            Some ((None, Some (Errorf (''failed to process file '' @ Name e) err)), p') \<and>
          opened p' = opened p @ map Name (filter (eligible (cfg p)) es1) @ [Name e]"
proof -
  from Run_loop_failure [OF assms(1,4,5,6), of es2 "\<lparr>InsertErrors = 0, UpdateErrors = 0\<rparr>"]
  obtain st p' where
    "Run_loop (es1 @ e # es2) \<lparr>InsertErrors = 0, UpdateErrors = 0\<rparr> p =
       Some ((st, Some (Errorf (''failed to process file '' @ Name e) err)), p')"
    and "opened p' = opened p @ map Name (filter (eligible (cfg p)) es1) @ [Name e]"
    by blast
  with assms(2,3) show ?thesis by (simp add: Run_def)
qed

theorem file_failure_aborts_run_witness:
  "fileError (mockFS [(''INS_02.csv'', [Inr [''ID'', ''Flag''], Inr [''300'', ''X''], Inl (Cause ''parse error'')]),
                      (''UPD_01.csv'', [Inr [''ID'', ''Flag''], Inr [''200'', ''U'']]),
                      (''INS_01.csv'', [Inr [''ID'', ''Flag''], Inr [''200'', ''OK''], Inr [''200'', ''Dup'']])])
     ''.'' ''INS_01.csv'' = None \<and>
   fileError (mockFS [(''INS_02.csv'', [Inr [''ID'', ''Flag''], Inr [''300'', ''X''], Inl (Cause ''parse error'')]),
                      (''UPD_01.csv'', [Inr [''ID'', ''Flag''], Inr [''200'', ''U'']]),
                      (''INS_01.csv'', [Inr [''ID'', ''Flag''], Inr [''200'', ''OK''], Inr [''200'', ''Dup'']])])
     ''.'' ''INS_02.csv'' = Some (Errorf ''csv read error at line 3'' (Cause ''parse error'')) \<and>
   map_option (\<lambda>r. (fst r, opened (snd r), out (snd r)))
     (Run (NewProcessor (testCfg 100)
       (mockFS [(''INS_02.csv'', [Inr [''ID'', ''Flag''], Inr [''300'', ''X''], Inl (Cause ''parse error'')]),
                (''UPD_01.csv'', [Inr [''ID'', ''Flag''], Inr [''200'', ''U'']]),
                (''INS_01.csv'', [Inr [''ID'', ''Flag''], Inr [''200'', ''OK''], Inr [''200'', ''Dup'']])]))) =
     Some ((None, Some (Errorf ''failed to process file INS_02.csv''
                          (Errorf ''csv read error at line 3'' (Cause ''parse error'')))),
           [''INS_01.csv'', ''INS_02.csv''],
           ''INS_01.csv(3) - '' @ msg_dup @ '' : 200,Dup'' @ [CHR 0x0A]) \<and>
   Error_text (Errorf ''failed to process file INS_02.csv''
                 (Errorf ''csv read error at line 3'' (Cause ''parse error''))) =
     ''failed to process file INS_02.csv: csv read error at line 3: parse error''"
proof -
  let ?files = "[(''INS_02.csv'', [Inr [''ID'', ''Flag''], Inr [''300'', ''X''], Inl (Cause ''parse error'')]),
                 (''UPD_01.csv'', [Inr [''ID'', ''Flag''], Inr [''200'', ''U'']]),
                 (''INS_01.csv'', [Inr [''ID'', ''Flag''], Inr [''200'', ''OK''], Inr [''200'', ''Dup'']])]"
  let ?p = "NewProcessor (testCfg 100) (mockFS ?files)"
  let ?a = "\<lparr>Name = ''INS_01.csv'', IsDir = False\<rparr>"
  let ?b = "\<lparr>Name = ''INS_02.csv'', IsDir = False\<rparr>"
  let ?c = "\<lparr>Name = ''UPD_01.csv'', IsDir = False\<rparr>"
  let ?err = "Errorf ''csv read error at line 3'' (Cause ''parse error'')"
  have c: "cfg ?p = testCfg 100" "fs ?p = mockFS ?files" "Dir (testCfg 100) = ''.''"
    "opened ?p = []"
    by (simp_all add: NewProcessor_def testCfg_def)
  have h1: "0 \<le> IDColIdx (cfg ?p)" by (simp add: NewProcessor_def testCfg_def)
  have h2: "ReadDir (fs ?p) (Dir (cfg ?p)) = Inr [?b, ?c, ?a]"
    by (simp add: NewProcessor_def mockFS_def)
  have h3: "sort_key Name [?b, ?c, ?a] = [?a] @ ?b # [?c]" by simp
  have f1: "fileError (mockFS ?files) ''.'' ''INS_01.csv'' = None"
    by (simp add: fileError_def mockFS_def)
  have h4: "\<forall>e'\<in>set [?a]. eligible (cfg ?p) e' \<longrightarrow>
              fileError (fs ?p) (Dir (cfg ?p)) (Name e') = None"
    using f1 by (simp add: c)
  have h5: "eligible (cfg ?p) ?b"
    by (simp add: eligible_def NewProcessor_def testCfg_def Ext_def HasPrefix_def)
  have f2: "fileError (mockFS ?files) ''.'' ''INS_02.csv'' = Some ?err"
    by (simp add: fileError_def mockFS_def itoa_def natToDec.simps)
  have h6: "fileError (fs ?p) (Dir (cfg ?p)) (Name ?b) = Some ?err"
    using f2 by (simp add: c)
  from file_failure_aborts_run [OF h1 h2 h3 h4 h5 h6] obtain p'
    where run: "Run ?p = Some ((None, Some (Errorf (''failed to process file '' @ Name ?b) ?err)), p')"
      and op: "opened p' = opened ?p @ map Name (filter (eligible (cfg ?p)) [?a]) @ [Name ?b]"
    by blast
  from op have op': "opened p' = [''INS_01.csv'', ''INS_02.csv'']"
    by (simp add: eligible_def NewProcessor_def testCfg_def Ext_def HasPrefix_def)
  have "map_option (\<lambda>r. out (snd r)) (Run ?p) =
          Some (''INS_01.csv(3) - '' @ msg_dup @ '' : 200,Dup'' @ [CHR 0x0A])"
    by (simp add: eval_defs run_defs)
  with run op' f1 f2 show ?thesis by simp
qed

text \<open>
  C8. A row too short to reach the identifier column (its length is at most the 0-based
  column index) is classified as no error and leaves the processor, and so both sets of
  identifiers, as it was. The call returns: the index is not read.
\<close>

theorem short_row_passes:
  "int (length recd) \<le> IDColIdx (cfg p) \<Longrightarrow>
   validateRow p recd isInsert = Some (\<lparr>IsError = False, Message = []\<rparr>, p)"
  by (simp add: validateRow_def passResult_def)

theorem short_row_passes_witness:
  "int (length [''x'']) \<le> IDColIdx (cfg (NewProcessor ((testCfg 100)\<lparr>IDColIdx := 1\<rparr>) (mockFS []))) \<and>
   validateRow (NewProcessor ((testCfg 100)\<lparr>IDColIdx := 1\<rparr>) (mockFS [])) [''x''] True =
     Some (\<lparr>IsError = False, Message = []\<rparr>, NewProcessor ((testCfg 100)\<lparr>IDColIdx := 1\<rparr>) (mockFS []))"
proof -
  have h: "int (length [''x'']) \<le> IDColIdx (cfg (NewProcessor ((testCfg 100)\<lparr>IDColIdx := 1\<rparr>) (mockFS [])))"
    by (simp add: NewProcessor_def testCfg_def)
  from h short_row_passes [OF h, of True] show ?thesis by simp
qed

text \<open>
  C9. The comparison with the minimum is exact on 64-bit signed integers. Take an insert
  row whose identifier is neither in \<open>errorIDs\<close> nor in \<open>seenIDs\<close> and is a numeral
  of an integer \<open>n\<close> in the 64-bit signed range, which are the identifiers that
  \<^verbatim>\<open>ParseInt\<close> accepts. Then \<^verbatim>\<open>ParseInt\<close> returns the word whose signed value is \<open>n\<close>,
  and for every minimum the row is an error of the minimum rule exactly when \<open>n\<close> is
  less than the signed value of the minimum, as integers; otherwise it is no error and
  the identifier is recorded in \<open>seenIDs\<close>. With the minimum 5000000000, beyond the
  32-bit range, the rows 4999999999 and 5000000000 of an insert file give an error of
  the minimum rule for the first row and no error for the second, whose identifier is
  recorded in \<open>seenIDs\<close>: as two calls of validateRow on any file system, and as
  processFile on the file of the test, where the one line written names row 2.
\<close>

theorem minimum_is_int64_exact:
  assumes b: "bears (cfg p) recd ident"
    and ne: "\<not> lookup (errorIDs p) ident"
    and ns: "\<not> lookup (seenIDs p) ident"
    and dv: "decimalValue ident = Some n"
    and lo: "- (2 ^ 63) \<le> n" and hi: "n < 2 ^ 63"
  shows "ParseInt ident = Inr (word_of_int n) \<and>
         sint (word_of_int n :: int64) = n \<and>
         validateRow p recd True =
           (if n < sint (MinID (cfg p))
            then Some (\<lparr>IsError = True, Message = msg_min\<rparr>, markError p ident)
            else Some (\<lparr>IsError = False, Message = []\<rparr>,
                       p\<lparr>seenIDs := (seenIDs p)(ident \<mapsto> True)\<rparr>)) \<and>
         validateRows (NewProcessor (testCfg 5000000000) f)
             [([''4999999999'', ''NG''], True), ([''5000000000'', ''OK''], True)] =
           Some [(\<lparr>IsError = True, Message = msg_min\<rparr>,
                  (NewProcessor (testCfg 5000000000) f)\<lparr>errorIDs := [''4999999999'' \<mapsto> True]\<rparr>),
                 (\<lparr>IsError = False, Message = []\<rparr>,
                  (NewProcessor (testCfg 5000000000) f)
                    \<lparr>seenIDs := [''5000000000'' \<mapsto> True],
                     errorIDs := [''4999999999'' \<mapsto> True]\<rparr>)] \<and>
         processFile (NewProcessor (testCfg 5000000000)
             (mockFS [(''INS_01.csv'',
                [Inr [''ID'', ''Flag''], Inr [''4999999999'', ''NG''], Inr [''5000000000'', ''OK'']])]))
           ''INS_01.csv'' True =
         Some ((1, None),
           (NewProcessor (testCfg 5000000000)
             (mockFS [(''INS_01.csv'',
                [Inr [''ID'', ''Flag''], Inr [''4999999999'', ''NG''], Inr [''5000000000'', ''OK'']])]))
           \<lparr>out := ''INS_01.csv(2) - '' @ msg_min @ '' : 4999999999,NG'' @ [CHR 0x0A],
            seenIDs := [''5000000000'' \<mapsto> True],
            errorIDs := [''4999999999'' \<mapsto> True],
            opened := [''INS_01.csv'']\<rparr>)"
proof -
  from dv lo hi have parse: "ParseInt ident = Inr (word_of_int n)"
    by (simp add: ParseInt_exact)
  from lo hi have s: "sint (word_of_int n :: int64) = n" by (rule sint_word_of_int_range)
  have row: "validateRow p recd True =
           (if n < sint (MinID (cfg p))
            then Some (\<lparr>IsError = True, Message = msg_min\<rparr>, markError p ident)
            else Some (\<lparr>IsError = False, Message = []\<rparr>,
                       p\<lparr>seenIDs := (seenIDs p)(ident \<mapsto> True)\<rparr>))"
    using ne ns parse s
    by (simp add: validateRow_bears [OF b] word_sless_alt passResult_def)
  have calls: "validateRows (NewProcessor (testCfg 5000000000) f)
             [([''4999999999'', ''NG''], True), ([''5000000000'', ''OK''], True)] =
           Some [(\<lparr>IsError = True, Message = msg_min\<rparr>,
                  (NewProcessor (testCfg 5000000000) f)\<lparr>errorIDs := [''4999999999'' \<mapsto> True]\<rparr>),
                 (\<lparr>IsError = False, Message = []\<rparr>,
                  (NewProcessor (testCfg 5000000000) f)
                    \<lparr>seenIDs := [''5000000000'' \<mapsto> True],
                     errorIDs := [''4999999999'' \<mapsto> True]\<rparr>)]"
    by (simp add: eval_defs)
  have onFile: "processFile (NewProcessor (testCfg 5000000000)
             (mockFS [(''INS_01.csv'',
                [Inr [''ID'', ''Flag''], Inr [''4999999999'', ''NG''], Inr [''5000000000'', ''OK'']])]))
           ''INS_01.csv'' True =
         Some ((1, None),
           (NewProcessor (testCfg 5000000000)
             (mockFS [(''INS_01.csv'',
                [Inr [''ID'', ''Flag''], Inr [''4999999999'', ''NG''], Inr [''5000000000'', ''OK'']])]))
           \<lparr>out := ''INS_01.csv(2) - '' @ msg_min @ '' : 4999999999,NG'' @ [CHR 0x0A],
            seenIDs := [''5000000000'' \<mapsto> True],
            errorIDs := [''4999999999'' \<mapsto> True],
            opened := [''INS_01.csv'']\<rparr>)"
    by (simp add: eval_defs run_defs)
  from parse s row calls onFile show ?thesis by (simp only: simp_thms)
qed

theorem minimum_is_int64_exact_witness:
  "bears (cfg (NewProcessor (testCfg 3) (mockFS []))) [''-5'', ''x''] ''-5'' \<and>
   decimalValue ''-5'' = Some (- 5) \<and>
   validateRow (NewProcessor (testCfg 3) (mockFS [])) [''-5'', ''x''] True =
     Some (\<lparr>IsError = True, Message = msg_min\<rparr>,
           markError (NewProcessor (testCfg 3) (mockFS [])) ''-5'') \<and>
   bears (cfg (NewProcessor (testCfg 2) (mockFS []))) [''4294967297'', ''x''] ''4294967297'' \<and>
   decimalValue ''4294967297'' = Some 4294967297 \<and>
   validateRow (NewProcessor (testCfg 2) (mockFS [])) [''4294967297'', ''x''] True =
     Some (\<lparr>IsError = False, Message = []\<rparr>,
           (NewProcessor (testCfg 2) (mockFS []))\<lparr>seenIDs := [''4294967297'' \<mapsto> True]\<rparr>)"
proof -
  let ?a = "NewProcessor (testCfg 3) (mockFS [])"
  let ?b = "NewProcessor (testCfg 2) (mockFS [])"
  have a1: "bears (cfg ?a) [''-5'', ''x''] ''-5''"
    by (simp add: bears_def NewProcessor_def testCfg_def)
  have a2: "\<not> lookup (errorIDs ?a) ''-5''" by (simp add: lookup_def NewProcessor_def)
  have a3: "\<not> lookup (seenIDs ?a) ''-5''" by (simp add: lookup_def NewProcessor_def)
  have a4: "decimalValue ''-5'' = Some (- 5)"
    by (simp add: decimalValue_def digitsValue_def digitStep_def isDigit_def)
  have a5: "- (2 ^ 63) \<le> (- 5 :: int)" by simp
  have a6: "(- 5 :: int) < 2 ^ 63" by simp
  have am: "sint (MinID (cfg ?a)) = 3" by (simp add: NewProcessor_def testCfg_def)
  from minimum_is_int64_exact [OF a1 a2 a3 a4 a5 a6] am
  have ra: "validateRow ?a [''-5'', ''x''] True =
      Some (\<lparr>IsError = True, Message = msg_min\<rparr>, markError ?a ''-5'')"
    by simp
  have b1: "bears (cfg ?b) [''4294967297'', ''x''] ''4294967297''"
    by (simp add: bears_def NewProcessor_def testCfg_def)
  have b2: "\<not> lookup (errorIDs ?b) ''4294967297''" by (simp add: lookup_def NewProcessor_def)
  have b3: "\<not> lookup (seenIDs ?b) ''4294967297''" by (simp add: lookup_def NewProcessor_def)
  have b4: "decimalValue ''4294967297'' = Some 4294967297"
    by (simp add: decimalValue_def digitsValue_def digitStep_def isDigit_def)
  have b5: "- (2 ^ 63) \<le> (4294967297 :: int)" by simp
  have b6: "(4294967297 :: int) < 2 ^ 63" by simp
  have bm: "sint (MinID (cfg ?b)) = 2" by (simp add: NewProcessor_def testCfg_def)
  from minimum_is_int64_exact [OF b1 b2 b3 b4 b5 b6] bm
  have rb: "validateRow ?b [''4294967297'', ''x''] True =
      Some (\<lparr>IsError = False, Message = []\<rparr>,
            ?b\<lparr>seenIDs := (seenIDs ?b)(''4294967297'' \<mapsto> True)\<rparr>)"
    by simp
  have "?b\<lparr>seenIDs := (seenIDs ?b)(''4294967297'' \<mapsto> True)\<rparr> =
        ?b\<lparr>seenIDs := [''4294967297'' \<mapsto> True]\<rparr>"
    by (simp add: NewProcessor_def)
  with a1 a4 ra b1 b4 rb show ?thesis by simp
qed

text \<open>
  C10. A file entry with the extension .csv whose name starts with the insert prefix and
  with the update prefix is processed by \<^verbatim>\<open>processFile\<close> with \<^verbatim>\<open>isInsert = true\<close>, and
  its error count is added to \<open>InsertErrors\<close>. In the examples the update prefix is a
  prefix of the insert prefix, or the insert prefix is empty; the second row of the file
  repeats the identifier of the first, and the run counts one insert error.
\<close>

theorem insert_prefix_wins:
  assumes "\<not> IsDir e" and "Ext (Name e) = ''.csv''"
    and "HasPrefix (Name e) (InsertF (cfg p))"
    and "HasPrefix (Name e) (UpdateF (cfg p))"
  shows "Run_loop (e # es) stats p =
           (case processFile p (Name e) True of
              None \<Rightarrow> None
            | Some ((fileErrCount, Some err), p') \<Rightarrow>
                Some ((stats, Some (Errorf (''failed to process file '' @ Name e) err)), p')
            | Some ((fileErrCount, None), p') \<Rightarrow>
                Run_loop es (stats\<lparr>InsertErrors := InsertErrors stats + fileErrCount\<rparr>) p')"
  using assms by (simp split: option.splits prod.splits)

theorem insert_prefix_wins_witness:
  "\<not> IsDir \<lparr>Name = ''INS_A.csv'', IsDir = False\<rparr> \<and>
   Ext (Name \<lparr>Name = ''INS_A.csv'', IsDir = False\<rparr>) = ''.csv'' \<and>
   HasPrefix ''INS_A.csv'' ''INS'' \<and> HasPrefix ''INS_A.csv'' ''IN'' \<and>
   map_option fst (Run_loop [\<lparr>Name = ''INS_A.csv'', IsDir = False\<rparr>]
      \<lparr>InsertErrors = 0, UpdateErrors = 0\<rparr>
      (NewProcessor ((testCfg 100)\<lparr>UpdateF := ''IN''\<rparr>)
         (mockFS [(''INS_A.csv'', [Inr [''ID'', ''Flag''], Inr [''100'', ''a''], Inr [''100'', ''b'']])]))) =
     Some (\<lparr>InsertErrors = 1, UpdateErrors = 0\<rparr>, None) \<and>
   map_option fst (Run
      (NewProcessor ((testCfg 100)\<lparr>UpdateF := ''IN''\<rparr>)
         (mockFS [(''INS_A.csv'', [Inr [''ID'', ''Flag''], Inr [''100'', ''a''], Inr [''100'', ''b'']])]))) =
     Some (Some \<lparr>InsertErrors = 1, UpdateErrors = 0\<rparr>, None) \<and>
   map_option fst (Run
      (NewProcessor ((testCfg 100)\<lparr>InsertF := []\<rparr>)
         (mockFS [(''UPD_A.csv'', [Inr [''ID'', ''Flag''], Inr [''100'', ''a''], Inr [''100'', ''b'']])]))) =
     Some (Some \<lparr>InsertErrors = 1, UpdateErrors = 0\<rparr>, None)"
proof -
  let ?e = "\<lparr>Name = ''INS_A.csv'', IsDir = False\<rparr>"
  let ?p = "NewProcessor ((testCfg 100)\<lparr>UpdateF := ''IN''\<rparr>)
         (mockFS [(''INS_A.csv'', [Inr [''ID'', ''Flag''], Inr [''100'', ''a''], Inr [''100'', ''b'']])])"
  let ?z = "\<lparr>InsertErrors = 0, UpdateErrors = 0\<rparr>"
  have h1: "\<not> IsDir ?e" by simp
  have h2: "Ext (Name ?e) = ''.csv''" by (simp add: Ext_def)
  have h3: "HasPrefix (Name ?e) (InsertF (cfg ?p))"
    by (simp add: HasPrefix_def NewProcessor_def testCfg_def)
  have h4: "HasPrefix (Name ?e) (UpdateF (cfg ?p))"
    by (simp add: HasPrefix_def NewProcessor_def testCfg_def)
  have pf: "map_option fst (processFile ?p ''INS_A.csv'' True) = Some (1, None)"
    by (simp add: eval_defs run_defs)
  from insert_prefix_wins [OF h1 h2 h3 h4, of "[]" ?z] pf
  have loop: "map_option fst (Run_loop [?e] ?z ?p) = Some (\<lparr>InsertErrors = 1, UpdateErrors = 0\<rparr>, None)"
    by (auto split: option.splits)
  have run1: "map_option fst (Run ?p) = Some (Some \<lparr>InsertErrors = 1, UpdateErrors = 0\<rparr>, None)"
    by (simp add: eval_defs run_defs)
  have run2: "map_option fst (Run
      (NewProcessor ((testCfg 100)\<lparr>InsertF := []\<rparr>)
         (mockFS [(''UPD_A.csv'', [Inr [''ID'', ''Flag''], Inr [''100'', ''a''], Inr [''100'', ''b'']])]))) =
     Some (Some \<lparr>InsertErrors = 1, UpdateErrors = 0\<rparr>, None)"
    by (simp add: eval_defs run_defs)
  from h1 h2 h3 h4 loop run1 run2 show ?thesis
    by (simp add: NewProcessor_def testCfg_def)
qed

end
